theory Spec2Isabelle
  imports Main "HOL-Library.Sublist" "HOL-Library.Word"
begin

section \<open>Machine integers\<close>

text \<open>
  The build script compiles FileForge.go for amd64 only, where Go's \<^verbatim>\<open>int\<close> and
  \<^verbatim>\<open>int64\<close> are both 64 bits wide and signed. A Go integer is modelled as an
  \<^typ>\<open>int\<close> inside \<open>[int_min, int_max]\<close>; every arithmetic operation that can leave
  the interval is followed by \<open>wrap64\<close>, the two's-complement wrap-around of Go.
\<close>

definition int_min :: int where
  "int_min = - (2 ^ 63)"

definition int_max :: int where
  "int_max = 2 ^ 63 - 1"

definition is_int64 :: "int \<Rightarrow> bool" where
  "is_int64 x = (int_min \<le> x \<and> x \<le> int_max)"

definition wrap64 :: "int \<Rightarrow> int" where
  "wrap64 x = (x + 2 ^ 63) mod 2 ^ 64 - 2 ^ 63"

text \<open>
  What ends the process from inside the Go runtime: the run-time panics that the program
  can raise, and the fatal error of a runtime that is out of memory.
\<close>

datatype panic = DivideByZero | MakeSliceLenOutOfRange | MakeChanSizeOutOfRange | OutOfMemory

text \<open>
  The limits of the runtime on amd64 (Go 1.21): \<^verbatim>\<open>maxAlloc\<close>, the largest number of bytes
  of one allocation, and \<^verbatim>\<open>hchanSize\<close>, the size of the header of a channel.
\<close>

definition maxAlloc :: int where
  "maxAlloc = 2 ^ 48"

definition hchanSize :: int where
  "hchanSize = 96"

text \<open>
  \<^verbatim>\<open>make([]byte, n)\<close>: the panic of \<^verbatim>\<open>makeslice\<close> for a length that is negative or above
  \<^verbatim>\<open>maxAlloc\<close>; otherwise the bytes are allocated, which fails where the machine has not
  the memory (\<open>outOfMemory\<close>). \<open>None\<close> is the slice made.
\<close>

definition make_bytes :: "bool \<Rightarrow> int \<Rightarrow> panic option" where
  "make_bytes outOfMemory n =
     (if n < 0 \<or> maxAlloc < n then Some MakeSliceLenOutOfRange
      else if outOfMemory \<and> 0 < n then Some OutOfMemory
      else None)"

text \<open>
  \<^verbatim>\<open>make(chan T, n)\<close> for elements of \<open>elemSize\<close> bytes: the panic of \<^verbatim>\<open>makechan\<close> for a
  size that is negative or whose buffer does not fit below \<^verbatim>\<open>maxAlloc\<close> together with the
  header; otherwise the channel is allocated, which fails where the machine has not the
  memory, and the result is the capacity of the channel made.
\<close>

definition make_chan :: "bool \<Rightarrow> int \<Rightarrow> int \<Rightarrow> panic + nat" where
  "make_chan outOfMemory elemSize n =
     (if n < 0 \<or> maxAlloc - hchanSize < elemSize * n then Inl MakeChanSizeOutOfRange
      else if outOfMemory then Inl OutOfMemory
      else Inr (nat n))"

text \<open>
  Go's integer division truncates towards zero and panics on a zero divisor; the one
  overflowing quotient, \<open>int_min / -1\<close>, wraps to \<open>int_min\<close>.
\<close>

definition go_div :: "int \<Rightarrow> int \<Rightarrow> panic + int" where
  "go_div a b =
     (if b = 0 then Inl DivideByZero
      else Inr (wrap64 (sgn a * sgn b * (\<bar>a\<bar> div \<bar>b\<bar>))))"

section \<open>Buffer size and worker count\<close>

definition minBufferSize :: int where
  "minBufferSize = 256 * 1024"

definition maxBufferSize :: int where
  "maxBufferSize = 16 * 1024 * 1024"

definition defaultFilesPerDir :: int where
  "defaultFilesPerDir = 10000"

text \<open>
  \<^verbatim>\<open>getOptimalBufferSize\<close>; the result of \<^verbatim>\<open>syscall.Getpagesize()\<close> is the
  parameter \<open>pageSize\<close>.
\<close>

definition getOptimalBufferSize :: "int \<Rightarrow> int" where
  "getOptimalBufferSize pageSize =
     (let bufferSize = max (wrap64 (pageSize * 256)) (1024 * 1024) in
      if bufferSize < minBufferSize then minBufferSize
      else if bufferSize > maxBufferSize then maxBufferSize
      else bufferSize)"

text \<open>\<^verbatim>\<open>getOptimalWorkerCount\<close>; \<^verbatim>\<open>runtime.NumCPU()\<close> is the parameter \<open>cpus\<close>.\<close>

definition getOptimalWorkerCount :: "int \<Rightarrow> int" where
  "getOptimalWorkerCount cpus =
     (let workers = wrap64 (cpus + 1) in
      if workers < 2 then 2 else workers)"

section \<open>Strings\<close>

text \<open>
  A Go string is a sequence of bytes, as \<^typ>\<open>string\<close> is. The functions of package
  \<^verbatim>\<open>strings\<close> are modelled on ASCII input (every byte below 128), where
  \<^verbatim>\<open>ToUpper\<close> changes the letters a to z only and \<^verbatim>\<open>TrimSpace\<close> removes the six
  ASCII white-space characters; their treatment of other Unicode code points is outside
  the model, and the theorems about \<open>parseSize\<close> are stated for ASCII input.
\<close>

definition ascii :: "string \<Rightarrow> bool" where
  "ascii s = list_all (\<lambda>c. (of_char c :: nat) < 128) s"

definition is_digit :: "char \<Rightarrow> bool" where
  "is_digit c = (48 \<le> (of_char c :: nat) \<and> (of_char c :: nat) \<le> 57)"

definition is_lower :: "char \<Rightarrow> bool" where
  "is_lower c = (97 \<le> (of_char c :: nat) \<and> (of_char c :: nat) \<le> 122)"

definition is_upper :: "char \<Rightarrow> bool" where
  "is_upper c = (65 \<le> (of_char c :: nat) \<and> (of_char c :: nat) \<le> 90)"

definition is_space :: "char \<Rightarrow> bool" where
  "is_space c = (c = CHR 0x09 \<or> c = CHR 0x0A \<or> c = CHR 0x0B \<or> c = CHR 0x0C \<or>
                 c = CHR 0x0D \<or> c = CHR '' '')"

definition is_quote :: "char \<Rightarrow> bool" where
  "is_quote c = (c = CHR 0x27 \<or> c = CHR 0x22)"

text \<open>\<^verbatim>\<open>strings.Trim\<close> with a cut set, given as a predicate: \<^verbatim>\<open>TrimLeft\<close>, then \<^verbatim>\<open>TrimRight\<close>.\<close>

definition trim_where :: "(char \<Rightarrow> bool) \<Rightarrow> string \<Rightarrow> string" where
  "trim_where P s = rev (dropWhile P (rev (dropWhile P s)))"

definition trim_quotes :: "string \<Rightarrow> string" where
  "trim_quotes s = trim_where is_quote s"

definition TrimSpace :: "string \<Rightarrow> string" where
  "TrimSpace s = trim_where is_space s"

definition to_upper_char :: "char \<Rightarrow> char" where
  "to_upper_char c = (if is_lower c then char_of ((of_char c :: nat) - 32) else c)"

definition ToUpper :: "string \<Rightarrow> string" where
  "ToUpper s = map to_upper_char s"

text \<open>\<^verbatim>\<open>strings.HasSuffix\<close> and \<^verbatim>\<open>strings.TrimSuffix\<close>, as package strings writes them.\<close>

definition HasSuffix :: "string \<Rightarrow> string \<Rightarrow> bool" where
  "HasSuffix s suf = (length suf \<le> length s \<and> drop (length s - length suf) s = suf)"

definition TrimSuffix :: "string \<Rightarrow> string \<Rightarrow> string" where
  "TrimSuffix s suf = (if HasSuffix s suf then take (length s - length suf) s else s)"

text \<open>
  \<^verbatim>\<open>strconv.Atoi\<close> for a 64-bit \<^verbatim>\<open>int\<close>: an optional sign, then decimal digits.
  The digit loop is that of \<^verbatim>\<open>ParseUint\<close> in base 10, which reports a value beyond
  64 bits as soon as it is reached and a character that is no digit where it stands.
\<close>

datatype num_error = ErrSyntax | ErrRange

fun parse_uint_loop :: "int \<Rightarrow> string \<Rightarrow> num_error + int" where
  "parse_uint_loop n [] = Inr n"
| "parse_uint_loop n (c # cs) =
     (if \<not> is_digit c then Inl ErrSyntax
      else if n \<ge> 2 ^ 64 div 10 + 1 then Inl ErrRange
      else if n * 10 + ((of_char c :: int) - 48) \<ge> 2 ^ 64 then Inl ErrRange
      else parse_uint_loop (n * 10 + ((of_char c :: int) - 48)) cs)"

definition ParseUint :: "string \<Rightarrow> num_error + int" where
  "ParseUint s = (if s = [] then Inl ErrSyntax else parse_uint_loop 0 s)"

definition Atoi :: "string \<Rightarrow> num_error + int" where
  "Atoi s =
     (if s = [] then Inl ErrSyntax
      else
        let neg = (hd s = CHR ''-'');
            digits = (if hd s = CHR ''+'' \<or> hd s = CHR ''-'' then tl s else s)
        in case ParseUint digits of
             Inl e \<Rightarrow> Inl e
           | Inr un \<Rightarrow>
               if \<not> neg \<and> un \<ge> 2 ^ 63 then Inl ErrRange
               else if neg \<and> un > 2 ^ 63 then Inl ErrRange
               else Inr (if neg then - un else un))"

text \<open>The verb \<^verbatim>\<open>%d\<close> of \<^verbatim>\<open>fmt.Sprintf\<close>: decimal digits, with a minus sign below zero.\<close>

definition digit_char :: "nat \<Rightarrow> char" where
  "digit_char d = ''0123456789'' ! d"

fun show_nat :: "nat \<Rightarrow> string" where
  "show_nat n = (if n < 10 then [digit_char n] else show_nat (n div 10) @ [digit_char (n mod 10)])"

declare show_nat.simps [simp del]

definition show_int :: "int \<Rightarrow> string" where
  "show_int i = (if i < 0 then CHR ''-'' # show_nat (nat (- i)) else show_nat (nat i))"

section \<open>parseSize\<close>

datatype parse_error =
    InvalidFormat
  | InvalidNumber num_error
  | UnsupportedUnit string

definition units :: "string list" where
  "units = [''GB'', ''MB'', ''KB'', ''B'', ''GIGABYTE'', ''MEGABYTE'', ''KILOBYTE'', ''BYTE'',
            ''GIGABYTES'', ''MEGABYTES'', ''KILOBYTES'', ''BYTES'']"

text \<open>
  The loop over \<open>units\<close>: the first unit, in the order of the slice, that is a suffix of
  the string; \<open>None\<close> is \<^verbatim>\<open>found == false\<close>, otherwise the pair of
  \<^verbatim>\<open>value\<close> and \<^verbatim>\<open>unit\<close>.
\<close>

fun find_unit :: "string \<Rightarrow> string list \<Rightarrow> (string \<times> string) option" where
  "find_unit sizeStr [] = None"
| "find_unit sizeStr (u # us) =
     (if HasSuffix sizeStr u then Some (TrimSpace (TrimSuffix sizeStr u), u)
      else find_unit sizeStr us)"

definition normalize :: "string \<Rightarrow> string" where
  "normalize sizeStr = ToUpper (TrimSpace (trim_quotes sizeStr))"

definition unit_switch :: "int \<Rightarrow> string \<Rightarrow> parse_error + int" where
  "unit_switch numValue unit =
     (if unit = ''B'' \<or> unit = ''BYTE'' \<or> unit = ''BYTES'' then Inr numValue
      else if unit = ''KB'' \<or> unit = ''KILOBYTE'' \<or> unit = ''KILOBYTES''
        then Inr (wrap64 (numValue * 1024))
      else if unit = ''MB'' \<or> unit = ''MEGABYTE'' \<or> unit = ''MEGABYTES''
        then Inr (wrap64 (wrap64 (numValue * 1024) * 1024))
      else if unit = ''GB'' \<or> unit = ''GIGABYTE'' \<or> unit = ''GIGABYTES''
        then Inr (wrap64 (wrap64 (wrap64 (numValue * 1024) * 1024) * 1024))
      else Inl (UnsupportedUnit unit))"

definition parseSize :: "string \<Rightarrow> parse_error + int" where
  "parseSize sizeStr =
     (case find_unit (normalize sizeStr) units of
        None \<Rightarrow> Inl InvalidFormat
      | Some (val, unit) \<Rightarrow>
          (case Atoi val of
             Inl e \<Rightarrow> Inl (InvalidNumber e)
           | Inr numValue \<Rightarrow> unit_switch numValue unit))"

section \<open>Path planning and the producer\<close>

text \<open>
  The body of the producer's loop in \<^verbatim>\<open>createRandomDataFiles\<close>: the path of the file
  with index \<open>i\<close>. The division panics when \<open>filesPerDir\<close> is zero.
\<close>

definition file_path :: "string \<Rightarrow> int \<Rightarrow> int \<Rightarrow> bool \<Rightarrow> panic + string" where
  "file_path directory i filesPerDir noSubdirs =
     (if noSubdirs then Inr (directory @ ''/file_'' @ show_int i @ ''.bin'')
      else
        case go_div i filesPerDir of
          Inl p \<Rightarrow> Inl p
        | Inr subdirNum \<Rightarrow>
            let subDir = directory @ ''/subdir_'' @ show_int subdirNum
            in Inr (subDir @ ''/file_'' @ show_int i @ ''.bin''))"

text \<open>
  The job channel as the producer leaves it: the paths whose send was completed, and
  whether the channel is closed. A queue that is not closed is the state of a producer
  that stays in a send for ever.
\<close>

record job_queue =
  sent :: "string list"
  closed :: bool

text \<open>
  The producer goroutine: \<^verbatim>\<open>for i := startNum; i <= endNum; i++\<close>, with the paths sent
  on the channel so far in \<open>jobs\<close>. The path is computed first, then sent. The send
  \<^verbatim>\<open>jobs <- filePath\<close> is completed when the buffer of the channel, of \<open>capacity\<close> paths,
  has room or a worker receives. \<open>numWorkers\<close> workers were started before the producer,
  all of them receiving from this channel in a loop; a worker of a run that \<open>main\<close> starts
  comes back to the receive after every job (the file size and the buffer size of such a
  run are positive, \<open>createRandomFile\<close> then returns, and the progress monitor takes what
  the worker sends). So with a worker every send is completed, and without one the sends
  are completed while the buffer has room; the producer then stays in the send and the
  deferred \<^verbatim>\<open>close(jobs)\<close> is never reached. The increment wraps as Go's does, so the loop
  need not end: not returning is the value \<open>None\<close>. A panic ends the whole process.
\<close>

partial_function (option) producer_loop ::
  "string \<Rightarrow> int \<Rightarrow> int \<Rightarrow> bool \<Rightarrow> int \<Rightarrow> nat \<Rightarrow> int \<Rightarrow> string list
     \<Rightarrow> (panic + job_queue) option" where
  "producer_loop directory endNum filesPerDir noSubdirs numWorkers capacity i jobs =
     (if i \<le> endNum then
        (case file_path directory i filesPerDir noSubdirs of
           Inl p \<Rightarrow> Some (Inl p)
         | Inr filePath \<Rightarrow>
             if 0 < numWorkers \<or> length jobs < capacity
             then producer_loop directory endNum filesPerDir noSubdirs numWorkers capacity
                    (wrap64 (i + 1)) (jobs @ [filePath])
             else Some (Inr \<lparr>sent = jobs, closed = False\<rparr>))
      else Some (Inr \<lparr>sent = jobs, closed = True\<rparr>))"

declare producer_loop.simps [code]

definition producer ::
  "string \<Rightarrow> int \<Rightarrow> int \<Rightarrow> int \<Rightarrow> bool \<Rightarrow> int \<Rightarrow> nat \<Rightarrow> (panic + job_queue) option" where
  "producer directory startNum endNum filesPerDir noSubdirs numWorkers capacity =
     producer_loop directory endNum filesPerDir noSubdirs numWorkers capacity startNum []"

text \<open>
  \<^verbatim>\<open>createRandomDataFiles\<close>, as far as the job queue goes: the job channel and the
  progress channel are made, both with room for \<open>numWorkers * 2\<close> elements (a string takes
  16 bytes, an \<^verbatim>\<open>int64\<close> 8), then the monitor, the workers and the producer are started.
  \<open>outOfMemory\<close> says whether the process runs out of memory before the producer is done;
  such a process ends in a fatal error, which the model places where the channels are
  made.
\<close>

definition createRandomDataFiles ::
  "bool \<Rightarrow> string \<Rightarrow> int \<Rightarrow> int \<Rightarrow> int \<Rightarrow> int \<Rightarrow> int \<Rightarrow> int \<Rightarrow> bool
     \<Rightarrow> (panic + job_queue) option" where
  "createRandomDataFiles outOfMemory directory startNum endNum fileSize filesPerDir bufferSize
       numWorkers noSubdirs =
     (case make_chan outOfMemory 16 (wrap64 (numWorkers * 2)) of
        Inl p \<Rightarrow> Some (Inl p)
      | Inr capacity \<Rightarrow>
     (case make_chan outOfMemory 8 (wrap64 (numWorkers * 2)) of
        Inl p \<Rightarrow> Some (Inl p)
      | Inr progressCapacity \<Rightarrow>
          producer directory startNum endNum filesPerDir noSubdirs numWorkers capacity))"

section \<open>The file writer\<close>

type_synonym byte = "8 word"

text \<open>
  What the operating system does during one call of \<^verbatim>\<open>createRandomFile\<close>: the error
  text of \<^verbatim>\<open>os.MkdirAll\<close> and of \<^verbatim>\<open>os.Create\<close> if they fail, the stream of random
  bytes and the error of \<^verbatim>\<open>rand.Read\<close> (by the number of bytes drawn before), and the
  error of a write to the file (by the length of the file before); and whether the
  machine is out of memory when the call asks for its buffers. The directory tree itself
  is not modelled.
\<close>

record file_env =
  mkdir_error :: "string option"
  create_error :: "string option"
  out_of_memory :: bool
  rand_error :: "nat \<Rightarrow> string option"
  rand_bytes :: "nat \<Rightarrow> byte"
  fwrite_error :: "nat \<Rightarrow> string option"

datatype file_error =
    DirectoryCreateError string string
  | FileCreateError string string
  | RandomSourceError string
  | WriteError string string
  | FlushError string string

text \<open>The text of the error that \<^verbatim>\<open>fmt.Errorf\<close> builds.\<close>

fun error_string :: "file_error \<Rightarrow> string" where
  "error_string (DirectoryCreateError filePath e) =
     ''error creating directory for file '' @ filePath @ '': '' @ e"
| "error_string (FileCreateError filePath e) = ''error creating file '' @ filePath @ '': '' @ e"
| "error_string (RandomSourceError e) = ''error generating random data: '' @ e"
| "error_string (WriteError filePath e) = ''error writing to file '' @ filePath @ '': '' @ e"
| "error_string (FlushError filePath e) = ''error flushing buffer to file '' @ filePath @ '': '' @ e"

text \<open>\<^verbatim>\<open>rand.Read\<close> on a slice of \<open>n\<close> bytes, \<open>pos\<close> bytes having been drawn before.\<close>

definition rand_read :: "file_env \<Rightarrow> nat \<Rightarrow> nat \<Rightarrow> string + byte list" where
  "rand_read env pos n =
     (case rand_error env pos of
        Some e \<Rightarrow> Inl e
      | None \<Rightarrow> Inr (map (rand_bytes env) [pos ..< pos + n]))"

text \<open>A write to the file: all of \<open>p\<close> is appended, or nothing and an error.\<close>

definition file_write :: "file_env \<Rightarrow> byte list \<Rightarrow> byte list \<Rightarrow> byte list \<times> string option" where
  "file_write env disk p =
     (case fwrite_error env (length disk) of
        Some e \<Rightarrow> (disk, Some e)
      | None \<Rightarrow> (disk @ p, None))"

text \<open>
  \<^verbatim>\<open>bufio.Writer\<close>: the bytes that have reached the file, the bytes held in the buffer
  and the size of the buffer. \<^verbatim>\<open>NewWriterSize\<close> takes 4096 for a size that is not
  positive.
\<close>

record bufio_writer =
  bw_file :: "byte list"
  bw_buf :: "byte list"
  bw_size :: nat

definition NewWriterSize :: "byte list \<Rightarrow> int \<Rightarrow> bufio_writer" where
  "NewWriterSize file sz = \<lparr>bw_file = file, bw_buf = [], bw_size = (if sz \<le> 0 then 4096 else nat sz)\<rparr>"

definition bw_flush :: "file_env \<Rightarrow> bufio_writer \<Rightarrow> bufio_writer \<times> string option" where
  "bw_flush env w =
     (if bw_buf w = [] then (w, None)
      else
        case file_write env (bw_file w) (bw_buf w) of
          (d, Some e) \<Rightarrow> (w\<lparr>bw_file := d\<rparr>, Some e)
        | (d, None) \<Rightarrow> (w\<lparr>bw_file := d, bw_buf := []\<rparr>, None))"

text \<open>
  \<^verbatim>\<open>bufio.Writer.Write\<close>: while \<open>p\<close> does not fit into the free part of the buffer, an
  empty buffer is bypassed and \<open>p\<close> written to the file, a buffer in use is filled and
  flushed; what is left of \<open>p\<close> is copied into the buffer.
\<close>

function bw_write :: "file_env \<Rightarrow> bufio_writer \<Rightarrow> byte list \<Rightarrow> bufio_writer \<times> string option" where
  "bw_write env w p =
     (if length p > bw_size w - length (bw_buf w) then
        (if bw_buf w = [] then
           (case file_write env (bw_file w) p of
              (d, Some e) \<Rightarrow> (w\<lparr>bw_file := d\<rparr>, Some e)
            | (d, None) \<Rightarrow> bw_write env (w\<lparr>bw_file := d\<rparr>) [])
         else
           (case bw_flush env (w\<lparr>bw_buf := bw_buf w @ take (bw_size w - length (bw_buf w)) p\<rparr>) of
              (w', Some e) \<Rightarrow> (w', Some e)
            | (w', None) \<Rightarrow> bw_write env w' (drop (bw_size w - length (bw_buf w)) p)))
      else (w\<lparr>bw_buf := bw_buf w @ p\<rparr>, None))"
  by pat_completeness auto
termination
  by (relation "measure (\<lambda>(env, w, p). 2 * length p + (if bw_buf w = [] then 0 else 1))")
    (auto simp: bw_flush_def split: if_splits prod.splits option.splits)

declare bw_write.simps [simp del]

text \<open>
  The chunk loop of \<^verbatim>\<open>createRandomFile\<close>. \<open>pos\<close> counts the random bytes drawn so far
  and \<open>chunks\<close> lists the sizes of the chunks handed to the buffered writer so far. With a
  buffer size of zero the loop never ends: not returning is the value \<open>None\<close>.
\<close>

partial_function (option) write_loop ::
  "file_env \<Rightarrow> string \<Rightarrow> int \<Rightarrow> int \<Rightarrow> nat \<Rightarrow> int list \<Rightarrow> bufio_writer
     \<Rightarrow> (bufio_writer \<times> int list \<times> file_error option) option" where
  "write_loop env filePath bufferSize remaining pos chunks bufWriter =
     (if remaining > 0 then
        (let chunkSize = (if remaining < bufferSize then remaining else bufferSize) in
         case rand_read env pos (nat chunkSize) of
           Inl e \<Rightarrow> Some (bufWriter, chunks, Some (RandomSourceError e))
         | Inr buffer \<Rightarrow>
             (case bw_write env bufWriter buffer of
                (w, Some e) \<Rightarrow> Some (w, chunks, Some (WriteError filePath e))
              | (w, None) \<Rightarrow>
                  write_loop env filePath bufferSize (wrap64 (remaining - chunkSize))
                    (pos + nat chunkSize) (chunks @ [chunkSize]) w))
      else Some (bufWriter, chunks, None))"

declare write_loop.simps [code]

text \<open>
  \<^verbatim>\<open>createRandomFile\<close> on the files \<open>fs\<close> (path to content). \<^verbatim>\<open>os.Create\<close> empties the
  file; the deferred \<^verbatim>\<open>file.Close()\<close> leaves in it what has reached it. Two slices are
  made before the loop: the buffer of \<^verbatim>\<open>bufio.NewWriterSize\<close>, of 4096 bytes for a size
  that is not positive and of \<open>bufferSize\<close> bytes otherwise, and
  \<^verbatim>\<open>make([]byte, bufferSize)\<close>. Either ends the process where the size is out of range or
  the memory is not there.
\<close>

definition createRandomFile ::
  "file_env \<Rightarrow> (string \<rightharpoonup> byte list) \<Rightarrow> string \<Rightarrow> int \<Rightarrow> int
     \<Rightarrow> (panic + (string \<rightharpoonup> byte list) \<times> file_error option) option" where
  "createRandomFile env fs filePath fileSize bufferSize =
     (case mkdir_error env of
        Some e \<Rightarrow> Some (Inr (fs, Some (DirectoryCreateError filePath e)))
      | None \<Rightarrow>
     (case create_error env of
        Some e \<Rightarrow> Some (Inr (fs, Some (FileCreateError filePath e)))
      | None \<Rightarrow>
     (case make_bytes (out_of_memory env) (if bufferSize \<le> 0 then 4096 else bufferSize) of
        Some p \<Rightarrow> Some (Inl p)
      | None \<Rightarrow>
     (case make_bytes (out_of_memory env) bufferSize of
        Some p \<Rightarrow> Some (Inl p)
      | None \<Rightarrow>
     (case write_loop env filePath bufferSize fileSize 0 [] (NewWriterSize [] bufferSize) of
        None \<Rightarrow> None
      | Some (w, chunks, Some e) \<Rightarrow> Some (Inr (fs(filePath \<mapsto> bw_file w), Some e))
      | Some (w, chunks, None) \<Rightarrow>
          (case bw_flush env w of
             (w', Some e) \<Rightarrow> Some (Inr (fs(filePath \<mapsto> bw_file w'), Some (FlushError filePath e)))
           | (w', None) \<Rightarrow> Some (Inr (fs(filePath \<mapsto> bw_file w'), None))))))))"

section \<open>The worker and the progress monitor\<close>

text \<open>
  What a worker leaves behind: the files, the lines it printed, the values it sent on the
  progress channel, and the calls of \<^verbatim>\<open>createRandomFile\<close> it made with their results.
\<close>

record worker_state =
  files :: "string \<rightharpoonup> byte list"
  printed :: "string list"
  progress :: "int list"
  calls :: "(string \<times> file_error option) list"

text \<open>The line that \<^verbatim>\<open>fmt.Printf("Worker %d: %v\n", id, err)\<close> prints.\<close>

definition log_line :: "int \<Rightarrow> file_error \<Rightarrow> string" where
  "log_line ident e = ''Worker '' @ show_int ident @ '': '' @ error_string e @ [CHR 0x0A]"

text \<open>
  \<^verbatim>\<open>worker\<close> on the paths it receives from the job channel, in order. The \<open>k\<close>-th call of
  \<^verbatim>\<open>createRandomFile\<close> runs in \<open>world k\<close> and takes the time \<open>clock k\<close>.
\<close>

fun worker ::
  "(nat \<Rightarrow> file_env) \<Rightarrow> (nat \<Rightarrow> int) \<Rightarrow> int \<Rightarrow> string list \<Rightarrow> int \<Rightarrow> int \<Rightarrow> nat \<Rightarrow> worker_state
     \<Rightarrow> (panic + worker_state) option" where
  "worker world clock ident [] fileSize bufferSize k st = Some (Inr st)"
| "worker world clock ident (filePath # jobs) fileSize bufferSize k st =
     (case createRandomFile (world k) (files st) filePath fileSize bufferSize of
        None \<Rightarrow> None
      | Some (Inl p) \<Rightarrow> Some (Inl p)
      | Some (Inr (fs, err)) \<Rightarrow>
          worker world clock ident jobs fileSize bufferSize (Suc k)
            (st\<lparr>files := fs,
                printed := (case err of
                    None \<Rightarrow> printed st
                  | Some e \<Rightarrow> printed st @ [log_line ident e]),
                progress := progress st @ [fileSize, clock k],
                calls := calls st @ [(filePath, err)]\<rparr>))"



section \<open>main\<close>

text \<open>
  The command line after \<^verbatim>\<open>flag.Parse\<close>: for each flag the value given, or \<open>None\<close>
  where the flag is absent and keeps its default.
\<close>

record cli_args =
  arg_directory :: "string option"
  arg_start :: "int option"
  arg_end :: "int option"
  arg_size :: "string option"
  arg_files_per_dir :: "int option"
  arg_workers :: "int option"
  arg_no_subdirs :: "bool option"

record flags =
  directoryPtr :: string
  startNumPtr :: int
  endNumPtr :: int
  sizePtr :: string
  filesPerDirPtr :: int
  numWorkersPtr :: int
  noSubdirsPtr :: bool

definition flag_value :: "'a \<Rightarrow> 'a option \<Rightarrow> 'a" where
  "flag_value dflt given = (case given of None \<Rightarrow> dflt | Some v \<Rightarrow> v)"

definition parse_flags :: "int \<Rightarrow> cli_args \<Rightarrow> flags" where
  "parse_flags cpus args =
     \<lparr>directoryPtr = flag_value [] (arg_directory args),
      startNumPtr = flag_value 0 (arg_start args),
      endNumPtr = flag_value 0 (arg_end args),
      sizePtr = flag_value [] (arg_size args),
      filesPerDirPtr = flag_value defaultFilesPerDir (arg_files_per_dir args),
      numWorkersPtr = flag_value (getOptimalWorkerCount cpus) (arg_workers args),
      noSubdirsPtr = flag_value False (arg_no_subdirs args)\<rparr>"

text \<open>The arguments of the call of \<^verbatim>\<open>createRandomDataFiles\<close>.\<close>

record request =
  req_directory :: string
  req_startNum :: int
  req_endNum :: int
  req_fileSize :: int
  req_filesPerDir :: int
  req_bufferSize :: int
  req_numWorkers :: int
  req_noSubdirs :: bool

text \<open>
  How \<^verbatim>\<open>main\<close> ends: with the usage text and an exit status, with the message about the
  file size and an exit status, or in the call of \<^verbatim>\<open>createRandomDataFiles\<close>.
\<close>

datatype outcome = UsageExit int | SizeErrorExit int | Run request

definition main_go :: "int \<Rightarrow> int \<Rightarrow> cli_args \<Rightarrow> outcome" where
  "main_go pageSize cpus args =
     (let bufferSize = getOptimalBufferSize pageSize;
          f = parse_flags cpus args
      in
        if directoryPtr f = [] \<or> startNumPtr f = 0 \<or> endNumPtr f = 0 \<or> sizePtr f = []
        then UsageExit 1
        else
          case parseSize (sizePtr f) of
            Inl e \<Rightarrow> SizeErrorExit 1
          | Inr fileSize \<Rightarrow>
              if fileSize \<le> 0 then SizeErrorExit 1
              else Run \<lparr>req_directory = directoryPtr f, req_startNum = startNumPtr f,
                        req_endNum = endNumPtr f, req_fileSize = fileSize,
                        req_filesPerDir = filesPerDirPtr f, req_bufferSize = bufferSize,
                        req_numWorkers = numWorkersPtr f, req_noSubdirs = noSubdirsPtr f\<rparr>)"

section \<open>Definitions for the statements\<close>

text \<open>The clamp of the specification: \<open>x\<close> forced into the interval from \<open>lo\<close> to \<open>hi\<close>.\<close>

definition spec_clamp :: "int \<Rightarrow> int \<Rightarrow> int \<Rightarrow> int" where
  "spec_clamp x lo hi = max lo (min hi x)"

text \<open>Command lines for the examples.\<close>

definition example_args :: cli_args where
  "example_args = \<lparr>arg_directory = Some ''out'', arg_start = Some 1, arg_end = Some 3,
     arg_size = Some ''1 KB'', arg_files_per_dir = None, arg_workers = None,
     arg_no_subdirs = None\<rparr>"

definition negative_args :: cli_args where
  "negative_args = \<lparr>arg_directory = Some ''out'', arg_start = Some (- 5), arg_end = Some (- 1),
     arg_size = Some ''1 KB'', arg_files_per_dir = None, arg_workers = None,
     arg_no_subdirs = None\<rparr>"

definition spanning_args :: cli_args where
  "spanning_args = \<lparr>arg_directory = Some ''out'', arg_start = Some (- 1), arg_end = Some 1,
     arg_size = Some ''1 KB'', arg_files_per_dir = None, arg_workers = None,
     arg_no_subdirs = None\<rparr>"

definition last_index_args :: cli_args where
  "last_index_args = \<lparr>arg_directory = Some ''out'', arg_start = Some 9223372036854775807,
     arg_end = Some 9223372036854775807, arg_size = Some ''1 KB'', arg_files_per_dir = None,
     arg_workers = None, arg_no_subdirs = Some True\<rparr>"

definition no_workers_args :: cli_args where
  "no_workers_args = \<lparr>arg_directory = Some ''out'', arg_start = Some 1, arg_end = Some 3,
     arg_size = Some ''1 KB'', arg_files_per_dir = None, arg_workers = Some 0,
     arg_no_subdirs = None\<rparr>"

text \<open>The requests that \<open>main\<close> makes of two of them.\<close>

definition spanning_request :: request where
  "spanning_request = \<lparr>req_directory = ''out'', req_startNum = - 1, req_endNum = 1,
     req_fileSize = 1024, req_filesPerDir = 10000, req_bufferSize = 1048576,
     req_numWorkers = 9, req_noSubdirs = False\<rparr>"

definition last_index_request :: request where
  "last_index_request = \<lparr>req_directory = ''out'', req_startNum = 9223372036854775807,
     req_endNum = 9223372036854775807, req_fileSize = 1024, req_filesPerDir = 10000,
     req_bufferSize = 1048576, req_numWorkers = 9, req_noSubdirs = True\<rparr>"

text \<open>The run that \<open>main\<close> starts for a request, on a machine with the memory it asks for.\<close>

definition start_run :: "request \<Rightarrow> (panic + job_queue) option" where
  "start_run req =
     createRandomDataFiles False (req_directory req) (req_startNum req) (req_endNum req)
       (req_fileSize req) (req_filesPerDir req) (req_bufferSize req) (req_numWorkers req)
       (req_noSubdirs req)"

text \<open>
  The chunk sizes in the words of the specification: chunks of size
  \<open>min bufferSize remaining\<close> until nothing remains.
\<close>

function spec_chunks :: "int \<Rightarrow> int \<Rightarrow> int list" where
  "spec_chunks bufferSize remaining =
     (if 0 < remaining \<and> 0 < bufferSize
      then min bufferSize remaining # spec_chunks bufferSize (remaining - min bufferSize remaining)
      else [])"
  by pat_completeness auto
termination
  by (relation "measure (\<lambda>(bufferSize, remaining). nat remaining)") auto

declare spec_chunks.simps [simp del]

text \<open>An operating system in which nothing fails; the random bytes count upwards.\<close>

definition quiet_env :: file_env where
  "quiet_env = \<lparr>mkdir_error = None, create_error = None, out_of_memory = False,
     rand_error = (\<lambda>_. None), rand_bytes = (\<lambda>i. of_nat i), fwrite_error = (\<lambda>_. None)\<rparr>"

text \<open>An operating system that reports no failure.\<close>

definition no_failure :: "file_env \<Rightarrow> bool" where
  "no_failure env =
     (mkdir_error env = None \<and> create_error env = None \<and> \<not> out_of_memory env
      \<and> rand_error env = (\<lambda>_. None) \<and> fwrite_error env = (\<lambda>_. None))"

text \<open>The lines a worker prints for a list of calls with their results.\<close>

definition log_lines :: "int \<Rightarrow> (string \<times> file_error option) list \<Rightarrow> string list" where
  "log_lines ident cs =
     concat (map (\<lambda>(filePath, err). case err of None \<Rightarrow> [] | Some e \<Rightarrow> [log_line ident e]) cs)"

fun is_random_source_error :: "file_error \<Rightarrow> bool" where
  "is_random_source_error (RandomSourceError e) = True"
| "is_random_source_error _ = False"

text \<open>The values a worker sends on the progress channel for \<open>n\<close> jobs, the first being job \<open>k\<close>.\<close>

definition progress_values :: "int \<Rightarrow> (nat \<Rightarrow> int) \<Rightarrow> nat \<Rightarrow> nat \<Rightarrow> int list" where
  "progress_values fileSize clock k n = concat (map (\<lambda>i. [fileSize, clock i]) [k ..< k + n])"

text \<open>The same values, the two of each job kept together.\<close>

definition progress_pairs :: "int \<Rightarrow> (nat \<Rightarrow> int) \<Rightarrow> nat \<Rightarrow> nat \<Rightarrow> int list list" where
  "progress_pairs fileSize clock k n = map (\<lambda>i. [fileSize, clock i]) [k ..< k + n]"






definition fresh_worker :: worker_state where
  "fresh_worker = \<lparr>files = Map.empty, printed = [], progress = [], calls = []\<rparr>"


text \<open>Operating systems for the examples: one without random bytes, one that refuses the
  directory of the first job.\<close>

definition no_random_env :: file_env where
  "no_random_env = quiet_env\<lparr>rand_error := (\<lambda>_. Some ''EIO'')\<rparr>"

definition first_fails :: "nat \<Rightarrow> file_env" where
  "first_fails k = (if k = 0 then quiet_env\<lparr>mkdir_error := Some ''permission denied''\<rparr>
                    else quiet_env)"

text \<open>
  The unit search in the words of the specification: the longer suffixes are checked
  before the shorter ones.
\<close>

definition spec_units :: "string list" where
  "spec_units = [''GIGABYTES'', ''MEGABYTES'', ''KILOBYTES'', ''GIGABYTE'', ''MEGABYTE'',
                 ''KILOBYTE'', ''BYTES'', ''BYTE'', ''GB'', ''MB'', ''KB'', ''B'']"

text \<open>
  An integer numeral as \<^verbatim>\<open>strconv.Atoi\<close> reads it, an optional sign and one or more
  decimal digits, and its value.
\<close>

definition digits_value :: "string \<Rightarrow> int" where
  "digits_value ds = foldl (\<lambda>a c. a * 10 + ((of_char c :: int) - 48)) 0 ds"

definition int_literal :: "string \<Rightarrow> bool" where
  "int_literal s =
     (case s of
        [] \<Rightarrow> False
      | c # cs \<Rightarrow>
          if c = CHR ''+'' \<or> c = CHR ''-'' then cs \<noteq> [] \<and> list_all is_digit cs
          else list_all is_digit s)"

definition literal_value :: "string \<Rightarrow> int" where
  "literal_value s =
     (case s of
        [] \<Rightarrow> 0
      | c # cs \<Rightarrow>
          if c = CHR ''-'' then - digits_value cs
          else if c = CHR ''+'' then digits_value cs
          else digits_value s)"

text \<open>The byte multiplier of a unit, as the specification lists it.\<close>

definition multiplier :: "string \<Rightarrow> int" where
  "multiplier u =
     (if u \<in> set [''B'', ''BYTE'', ''BYTES''] then 1
      else if u \<in> set [''KB'', ''KILOBYTE'', ''KILOBYTES''] then 1024
      else if u \<in> set [''MB'', ''MEGABYTE'', ''MEGABYTES''] then 1024 * 1024
      else 1024 * 1024 * 1024)"

section \<open>Properties\<close>

subsection \<open>Machine integers\<close>

lemma wrap64_id: "is_int64 x \<Longrightarrow> wrap64 x = x"
  by (simp add: is_int64_def int_min_def int_max_def wrap64_def)

lemma wrap64_range: "is_int64 (wrap64 x)"
proof -
  have "0 \<le> (x + 2 ^ 63) mod (2 ^ 64 :: int)" and "(x + 2 ^ 63) mod (2 ^ 64 :: int) < 2 ^ 64"
    by simp_all
  then show ?thesis
    by (simp add: is_int64_def int_min_def int_max_def wrap64_def)
qed


subsection \<open>The buffer size\<close>

lemma main_go_bufferSize:
  "main_go pageSize cpus args = Run req \<Longrightarrow> req_bufferSize req = getOptimalBufferSize pageSize"
  by (auto simp: main_go_def Let_def split: if_splits sum.splits)

lemma parseSize_1KB: "parseSize ''1 KB'' = Inr 1024"
  by code_simp

lemma main_go_example:
  "main_go 4096 8 example_args =
     Run \<lparr>req_directory = ''out'', req_startNum = 1, req_endNum = 3, req_fileSize = 1024,
          req_filesPerDir = 10000, req_bufferSize = 1048576, req_numWorkers = 9,
          req_noSubdirs = False\<rparr>"
  by (simp add: main_go_def example_args_def parse_flags_def flag_value_def parseSize_1KB
      getOptimalBufferSize_def getOptimalWorkerCount_def wrap64_def minBufferSize_def
      maxBufferSize_def defaultFilesPerDir_def Let_def)

text \<open>
  C6. For a page size \<open>p\<close> whose product with 256 is a 64-bit integer (every page size
  an operating system reports), \<open>getOptimalBufferSize\<close> returns
  \<open>max (p * 256) 1 MiB\<close> clamped to the interval from 256 KiB to 16 MiB. \<open>main\<close> computes
  it once and hands that one value to \<open>createRandomDataFiles\<close>, which hands it to every
  worker and so to every file.
\<close>

theorem getOptimalBufferSize_clamp:
  assumes "is_int64 (pageSize * 256)"
  shows "getOptimalBufferSize pageSize
           = spec_clamp (max (pageSize * 256) (1024 * 1024)) (256 * 1024) (16 * 1024 * 1024)
         \<and> 262144 \<le> getOptimalBufferSize pageSize
         \<and> getOptimalBufferSize pageSize \<le> 16777216
         \<and> (\<forall>cpus args req. main_go pageSize cpus args = Run req
               \<longrightarrow> req_bufferSize req = getOptimalBufferSize pageSize)"
  using assms
  by (auto simp: getOptimalBufferSize_def spec_clamp_def wrap64_id minBufferSize_def
      maxBufferSize_def Let_def main_go_bufferSize)

theorem getOptimalBufferSize_clamp_witness:
  "is_int64 (4096 * 256) \<and> getOptimalBufferSize 4096 = 1048576
   \<and> spec_clamp (max (4096 * 256) (1024 * 1024)) (256 * 1024) (16 * 1024 * 1024) = 1048576
   \<and> (\<exists>req. main_go 4096 8 example_args = Run req \<and> req_bufferSize req = 1048576)"
proof -
  have h: "is_int64 (4096 * 256)"
    by (simp add: is_int64_def int_min_def int_max_def)
  have c: "spec_clamp (max (4096 * 256) (1024 * 1024)) (256 * 1024) (16 * 1024 * 1024) = 1048576"
    by (simp add: spec_clamp_def)
  from getOptimalBufferSize_clamp [OF h]
  have "getOptimalBufferSize 4096 = 1048576"
    unfolding c by (rule conjunct1)
  with h c main_go_example show ?thesis
    by simp
qed

subsection \<open>The required flags\<close>

lemma main_go_usage:
  "flag_value 0 (arg_start args) = 0 \<or> flag_value 0 (arg_end args) = 0
     \<Longrightarrow> main_go pageSize cpus args = UsageExit 1"
  by (auto simp: main_go_def parse_flags_def Let_def)

lemma main_go_Run_indices:
  "main_go pageSize cpus args = Run req \<Longrightarrow>
     req_startNum req = flag_value 0 (arg_start args) \<and> req_startNum req \<noteq> 0
     \<and> req_endNum req = flag_value 0 (arg_end args) \<and> req_endNum req \<noteq> 0"
  by (auto simp: main_go_def parse_flags_def Let_def split: if_splits sum.splits)

lemma main_go_not_usage:
  "arg_directory args = Some d \<Longrightarrow> d \<noteq> [] \<Longrightarrow> arg_size args = Some s \<Longrightarrow> s \<noteq> []
     \<Longrightarrow> arg_start args = Some a \<Longrightarrow> a \<noteq> 0 \<Longrightarrow> arg_end args = Some b \<Longrightarrow> b \<noteq> 0
     \<Longrightarrow> main_go pageSize cpus args \<noteq> UsageExit 1"
  by (auto simp: main_go_def parse_flags_def flag_value_def Let_def split: sum.splits)

text \<open>
  C10. A start or end flag given as 0 has the effect of the flag left out: either way
  \<open>main\<close> prints the usage text and exits with status 1, and creates nothing. So every
  run that \<open>main\<close> starts has a start index and an end index other than 0. The check is on
  these two flags only: start and end indices other than 0, negative ones among them,
  pass it.
\<close>

theorem main_go_zero_index_is_missing:
  "main_go pageSize cpus (args\<lparr>arg_start := Some 0\<rparr>) = UsageExit 1
   \<and> main_go pageSize cpus (args\<lparr>arg_start := None\<rparr>) = UsageExit 1
   \<and> main_go pageSize cpus (args\<lparr>arg_end := Some 0\<rparr>) = UsageExit 1
   \<and> main_go pageSize cpus (args\<lparr>arg_end := None\<rparr>) = UsageExit 1
   \<and> (\<forall>req. main_go pageSize cpus args = Run req
         \<longrightarrow> req_startNum req \<noteq> 0 \<and> req_endNum req \<noteq> 0)
   \<and> (\<forall>d s a b. arg_directory args = Some d \<and> d \<noteq> [] \<and> arg_size args = Some s \<and> s \<noteq> []
         \<and> arg_start args = Some a \<and> a \<noteq> 0 \<and> arg_end args = Some b \<and> b \<noteq> 0
         \<longrightarrow> main_go pageSize cpus args \<noteq> UsageExit 1)"
proof -
  have "main_go pageSize cpus (args\<lparr>arg_start := Some 0\<rparr>) = UsageExit 1"
    "main_go pageSize cpus (args\<lparr>arg_start := None\<rparr>) = UsageExit 1"
    "main_go pageSize cpus (args\<lparr>arg_end := Some 0\<rparr>) = UsageExit 1"
    "main_go pageSize cpus (args\<lparr>arg_end := None\<rparr>) = UsageExit 1"
    by (rule main_go_usage, simp add: flag_value_def)+
  moreover have "\<forall>req. main_go pageSize cpus args = Run req
         \<longrightarrow> req_startNum req \<noteq> 0 \<and> req_endNum req \<noteq> 0"
    using main_go_Run_indices by blast
  moreover have "\<forall>d s a b. arg_directory args = Some d \<and> d \<noteq> [] \<and> arg_size args = Some s
         \<and> s \<noteq> [] \<and> arg_start args = Some a \<and> a \<noteq> 0 \<and> arg_end args = Some b \<and> b \<noteq> 0
         \<longrightarrow> main_go pageSize cpus args \<noteq> UsageExit 1"
    using main_go_not_usage [of args _ _ _ _ pageSize cpus] by fastforce
  ultimately show ?thesis
    by blast
qed

lemma main_go_negative_example:
  "main_go 4096 8 negative_args =
     Run \<lparr>req_directory = ''out'', req_startNum = - 5, req_endNum = - 1, req_fileSize = 1024,
          req_filesPerDir = 10000, req_bufferSize = 1048576, req_numWorkers = 9,
          req_noSubdirs = False\<rparr>"
  by (simp add: main_go_def negative_args_def parse_flags_def flag_value_def parseSize_1KB
      getOptimalBufferSize_def getOptimalWorkerCount_def wrap64_def minBufferSize_def
      maxBufferSize_def defaultFilesPerDir_def Let_def)

theorem main_go_zero_index_is_missing_witness:
  "main_go 4096 8 (negative_args\<lparr>arg_start := Some 0\<rparr>) = UsageExit 1
   \<and> main_go 4096 8 (negative_args\<lparr>arg_start := None\<rparr>) = UsageExit 1
   \<and> (\<exists>req. main_go 4096 8 negative_args = Run req
         \<and> req_startNum req = - 5 \<and> req_endNum req = - 1)
   \<and> arg_directory negative_args = Some ''out'' \<and> arg_size negative_args = Some ''1 KB''
   \<and> arg_start negative_args = Some (- 5) \<and> arg_end negative_args = Some (- 1)
   \<and> main_go 4096 8 negative_args \<noteq> UsageExit 1"
  using main_go_zero_index_is_missing [of 4096 8 negative_args] main_go_negative_example
  by (simp add: negative_args_def)

lemma main_go_spanning_example: "main_go 4096 8 spanning_args = Run spanning_request"
  by (simp add: main_go_def spanning_args_def spanning_request_def parse_flags_def
      flag_value_def parseSize_1KB getOptimalBufferSize_def getOptimalWorkerCount_def wrap64_def
      minBufferSize_def maxBufferSize_def defaultFilesPerDir_def Let_def)

lemma start_run_spanning_example:
  "start_run spanning_request
     = Some (Inr \<lparr>sent = [''out/subdir_0/file_-1.bin'', ''out/subdir_0/file_0.bin'',
                          ''out/subdir_0/file_1.bin''], closed = True\<rparr>)"
  by code_simp

text \<open>
  A run with the index 0 can be asked for all the same: the command line with the start
  index -1 and the end index 1 passes the check, \<open>main\<close> starts the run, and the producer
  sends the path of the file with index 0 along with the two others.
\<close>

theorem main_go_index_zero_counterexample:
  "main_go 4096 8 spanning_args = Run spanning_request
   \<and> req_startNum spanning_request = - 1 \<and> req_endNum spanning_request = 1
   \<and> file_path (req_directory spanning_request) 0 (req_filesPerDir spanning_request)
         (req_noSubdirs spanning_request)
       = Inr ''out/subdir_0/file_0.bin''
   \<and> start_run spanning_request
       = Some (Inr \<lparr>sent = [''out/subdir_0/file_-1.bin'', ''out/subdir_0/file_0.bin'',
                            ''out/subdir_0/file_1.bin''], closed = True\<rparr>)"
proof -
  have "file_path ''out'' 0 10000 False = Inr ''out/subdir_0/file_0.bin''"
    by code_simp
  then have "file_path (req_directory spanning_request) 0 (req_filesPerDir spanning_request)
         (req_noSubdirs spanning_request)
       = Inr ''out/subdir_0/file_0.bin''"
    by (simp add: spanning_request_def)
  moreover have "req_startNum spanning_request = - 1" "req_endNum spanning_request = 1"
    by (simp_all add: spanning_request_def)
  ultimately show ?thesis
    using main_go_spanning_example start_run_spanning_example by (intro conjI)
qed

subsection \<open>Paths\<close>

lemma show_int_0: "show_int 0 = ''0''"
  and show_int_1: "show_int 1 = ''1''"
  and show_int_2: "show_int 2 = ''2''"
  by (simp_all add: show_int_def show_nat.simps digit_char_def)

lemma abs_div_bounds: "0 \<le> \<bar>i\<bar> div \<bar>fpd\<bar> \<and> \<bar>i\<bar> div \<bar>fpd\<bar> \<le> \<bar>i :: int\<bar>"
proof (cases "i = 0")
  case True
  then show ?thesis by simp
next
  case False
  then have "0 < \<bar>i\<bar>" by simp
  then have "\<bar>i\<bar> div \<bar>fpd\<bar> \<le> \<bar>i\<bar>" by (rule int_div_le_self)
  then show ?thesis by (simp add: div_int_pos_iff)
qed

lemma go_div_nonneg:
  assumes "0 \<le> i" "i \<le> int_max" "0 < fpd"
  shows "go_div i fpd = Inr (i div fpd)"
proof -
  have q: "sgn i * sgn fpd * (\<bar>i\<bar> div \<bar>fpd\<bar>) = i div fpd"
    using assms by (cases "i = 0") simp_all
  have "0 \<le> i div fpd \<and> i div fpd \<le> i"
    using abs_div_bounds [of i fpd] assms by simp
  then have "is_int64 (i div fpd)"
    using assms by (simp add: is_int64_def int_min_def)
  then have "wrap64 (sgn i * sgn fpd * (\<bar>i\<bar> div \<bar>fpd\<bar>)) = i div fpd"
    by (simp only: q wrap64_id)
  moreover have "fpd \<noteq> 0"
    using assms(3) by simp
  ultimately show ?thesis
    by (simp only: go_div_def if_False)
qed

lemma go_div_truncates:
  assumes "fpd \<noteq> 0" "is_int64 i" "\<not> (i = int_min \<and> fpd = - 1)"
  shows "go_div i fpd = Inr (sgn i * sgn fpd * (\<bar>i\<bar> div \<bar>fpd\<bar>))"
proof -
  let ?q = "\<bar>i\<bar> div \<bar>fpd\<bar>"
  have a: "0 \<le> ?q" and b: "?q \<le> \<bar>i\<bar>"
    using abs_div_bounds [of i fpd] by simp_all
  have c: "\<bar>sgn i * sgn fpd * ?q\<bar> = ?q"
    using a assms(1) by (cases "i = 0") (simp_all add: abs_mult)
  have "\<bar>sgn i * sgn fpd * ?q\<bar> \<le> int_max \<or> sgn i * sgn fpd * ?q = int_min"
  proof (cases "\<bar>i\<bar> \<le> int_max")
    case True
    with b c show ?thesis by simp
  next
    case False
    with assms(2) have i: "i = int_min"
      unfolding is_int64_def int_min_def int_max_def by arith
    with assms(3) have f: "fpd \<noteq> - 1" by simp
    show ?thesis
    proof (cases "fpd = 1")
      case True
      with i show ?thesis by (simp add: int_min_def)
    next
      case False
      with f assms(1) have "2 \<le> \<bar>fpd\<bar>" by arith
      then have "?q \<le> \<bar>i\<bar> div 2"
        by (simp add: zdiv_mono2)
      also have "\<dots> \<le> int_max"
        using i by (simp add: int_min_def int_max_def)
      finally show ?thesis
        using c by simp
    qed
  qed
  then have "is_int64 (sgn i * sgn fpd * ?q)"
    by (auto simp: is_int64_def int_min_def int_max_def)
  then have "wrap64 (sgn i * sgn fpd * ?q) = sgn i * sgn fpd * ?q"
    by (rule wrap64_id)
  with assms(1) show ?thesis
    by (simp only: go_div_def if_False)
qed

lemma file_path_subdirs:
  "go_div i fpd = Inr q \<Longrightarrow>
     file_path root i fpd False
       = Inr (root @ ''/subdir_'' @ show_int q @ ''/file_'' @ show_int i @ ''.bin'')"
  by (simp add: file_path_def)

lemma file_path_10000:
  assumes "0 \<le> j" "j \<le> 25000" "j = 10000 * q + r" "0 \<le> r" "r < 10000"
  shows "file_path root j 10000 False
           = Inr (root @ ''/subdir_'' @ show_int q @ ''/file_'' @ show_int j @ ''.bin'')"
proof -
  have "j div 10000 = q"
    using assms(3-5) by (rule int_div_pos_eq)
  moreover have "j \<le> int_max"
    using assms(2) by (simp add: int_max_def)
  ultimately have "go_div j 10000 = Inr q"
    using go_div_nonneg [of j 10000] assms(1) by simp
  then show ?thesis
    by (rule file_path_subdirs)
qed

text \<open>
  C3. The path of a file is a function of the root directory, the index, the number of
  files per subdirectory and the subdirectory switch. Without subdirectories it is
  \<open>root/file_<index>.bin\<close>. With them it is \<open>root/subdir_<q>/file_<index>.bin\<close>, where
  \<open>q\<close> is the integer quotient of the index by the number of files per subdirectory:
  \<open>index div filesPerDir\<close> for an index from 0 on and a positive divisor, and Go's
  quotient truncated towards zero in general. With 10000 files per subdirectory, the
  indices 1 to 9999 lie in \<open>subdir_0\<close>, 10000 to 19999 in \<open>subdir_1\<close> and 20000 to 25000
  in \<open>subdir_2\<close>.
\<close>

theorem file_path_plan:
  "file_path root i fpd True = Inr (root @ ''/file_'' @ show_int i @ ''.bin'')
   \<and> (0 \<le> i \<and> i \<le> int_max \<and> 0 < fpd \<longrightarrow>
        file_path root i fpd False
          = Inr (root @ ''/subdir_'' @ show_int (i div fpd) @ ''/file_'' @ show_int i @ ''.bin''))
   \<and> (fpd \<noteq> 0 \<and> is_int64 i \<and> \<not> (i = int_min \<and> fpd = - 1) \<longrightarrow>
        file_path root i fpd False
          = Inr (root @ ''/subdir_'' @ show_int (sgn i * sgn fpd * (\<bar>i\<bar> div \<bar>fpd\<bar>))
                   @ ''/file_'' @ show_int i @ ''.bin''))
   \<and> (\<forall>j \<in> {1 .. 9999}.
        file_path root j 10000 False = Inr (root @ ''/subdir_0/file_'' @ show_int j @ ''.bin''))
   \<and> (\<forall>j \<in> {10000 .. 19999}.
        file_path root j 10000 False = Inr (root @ ''/subdir_1/file_'' @ show_int j @ ''.bin''))
   \<and> (\<forall>j \<in> {20000 .. 25000}.
        file_path root j 10000 False = Inr (root @ ''/subdir_2/file_'' @ show_int j @ ''.bin''))"
proof -
  have flat: "file_path root i fpd True = Inr (root @ ''/file_'' @ show_int i @ ''.bin'')"
    by (simp add: file_path_def)
  have pos: "0 \<le> i \<and> i \<le> int_max \<and> 0 < fpd \<longrightarrow>
        file_path root i fpd False
          = Inr (root @ ''/subdir_'' @ show_int (i div fpd) @ ''/file_'' @ show_int i @ ''.bin'')"
    by (simp add: go_div_nonneg file_path_subdirs)
  have gen: "fpd \<noteq> 0 \<and> is_int64 i \<and> \<not> (i = int_min \<and> fpd = - 1) \<longrightarrow>
        file_path root i fpd False
          = Inr (root @ ''/subdir_'' @ show_int (sgn i * sgn fpd * (\<bar>i\<bar> div \<bar>fpd\<bar>))
                   @ ''/file_'' @ show_int i @ ''.bin'')"
    using go_div_truncates [of fpd i] by (auto simp: file_path_subdirs)
  have r0: "\<forall>j \<in> {1 .. 9999}.
        file_path root j 10000 False = Inr (root @ ''/subdir_0/file_'' @ show_int j @ ''.bin'')"
  proof
    fix j :: int assume "j \<in> {1 .. 9999}"
    then show "file_path root j 10000 False = Inr (root @ ''/subdir_0/file_'' @ show_int j @ ''.bin'')"
      using file_path_10000 [of j 0 j root] by (simp add: show_int_0)
  qed
  have r1: "\<forall>j \<in> {10000 .. 19999}.
        file_path root j 10000 False = Inr (root @ ''/subdir_1/file_'' @ show_int j @ ''.bin'')"
  proof
    fix j :: int assume j: "j \<in> {10000 .. 19999}"
    then show "file_path root j 10000 False = Inr (root @ ''/subdir_1/file_'' @ show_int j @ ''.bin'')"
      using file_path_10000 [of j 1 "j - 10000" root] by (simp add: show_int_1)
  qed
  have r2: "\<forall>j \<in> {20000 .. 25000}.
        file_path root j 10000 False = Inr (root @ ''/subdir_2/file_'' @ show_int j @ ''.bin'')"
  proof
    fix j :: int assume j: "j \<in> {20000 .. 25000}"
    then show "file_path root j 10000 False = Inr (root @ ''/subdir_2/file_'' @ show_int j @ ''.bin'')"
      using file_path_10000 [of j 2 "j - 20000" root] by (simp add: show_int_2)
  qed
  from flat pos gen r0 r1 r2 show ?thesis
    by blast
qed

lemma show_int_examples:
  "show_int 1 = ''1''" "show_int 9999 = ''9999''" "show_int 10000 = ''10000''"
  "show_int 25000 = ''25000''" "show_int (- 7) = ''-7''" "show_int (- 3) = ''-3''"
  by (simp_all add: show_int_def show_nat.simps digit_char_def)

theorem file_path_plan_witness:
  "file_path ''out'' 9999 10000 True = Inr ''out/file_9999.bin''
   \<and> (0 :: int) \<le> 9999 \<and> 9999 \<le> int_max
   \<and> file_path ''out'' 9999 10000 False = Inr ''out/subdir_0/file_9999.bin''
   \<and> is_int64 (- 7) \<and> file_path ''out'' (- 7) 2 False = Inr ''out/subdir_-3/file_-7.bin''
   \<and> (1 :: int) \<in> {1 .. 9999} \<and> file_path ''out'' 1 10000 False = Inr ''out/subdir_0/file_1.bin''
   \<and> (10000 :: int) \<in> {10000 .. 19999}
   \<and> file_path ''out'' 10000 10000 False = Inr ''out/subdir_1/file_10000.bin''
   \<and> (25000 :: int) \<in> {20000 .. 25000}
   \<and> file_path ''out'' 25000 10000 False = Inr ''out/subdir_2/file_25000.bin''"
proof -
  have r: "(0 :: int) \<le> 9999 \<and> 9999 \<le> int_max \<and> (0 :: int) < 10000"
    and r': "(2 :: int) \<noteq> 0 \<and> is_int64 (- 7) \<and> \<not> (- 7 = int_min \<and> (2 :: int) = - 1)"
    by (simp_all add: is_int64_def int_min_def int_max_def)
  have d: "(9999 :: int) div 10000 = 0" "sgn (- 7 :: int) * sgn (2 :: int) * (\<bar>- 7\<bar> div \<bar>2\<bar>) = - 3"
    by simp_all
  have m: "(1 :: int) \<in> {1 .. 9999}" "(10000 :: int) \<in> {10000 .. 19999}"
    "(25000 :: int) \<in> {20000 .. 25000}"
    by simp_all
  note p = file_path_plan [of "''out''" 9999 10000]
  note q = file_path_plan [of "''out''" "- 7" 2]
  have a1: "file_path ''out'' 9999 10000 True = Inr ''out/file_9999.bin''"
    using p [THEN conjunct1] by (simp add: show_int_examples)
  have a2: "file_path ''out'' 9999 10000 False = Inr ''out/subdir_0/file_9999.bin''"
    using p [THEN conjunct2, THEN conjunct1, rule_format, OF r]
    by (simp add: d show_int_0 show_int_examples)
  have a3: "file_path ''out'' (- 7) 2 False = Inr ''out/subdir_-3/file_-7.bin''"
    using q [THEN conjunct2, THEN conjunct2, THEN conjunct1, rule_format, OF r']
    by (simp add: d show_int_examples)
  have a4: "file_path ''out'' 1 10000 False = Inr ''out/subdir_0/file_1.bin''"
    using p [THEN conjunct2, THEN conjunct2, THEN conjunct2, THEN conjunct1, THEN bspec, OF m(1)]
    by (simp add: show_int_examples)
  have a5: "file_path ''out'' 10000 10000 False = Inr ''out/subdir_1/file_10000.bin''"
    using p [THEN conjunct2, THEN conjunct2, THEN conjunct2, THEN conjunct2, THEN conjunct1,
        THEN bspec, OF m(2)]
    by (simp add: show_int_examples)
  have a6: "file_path ''out'' 25000 10000 False = Inr ''out/subdir_2/file_25000.bin''"
    using p [THEN conjunct2, THEN conjunct2, THEN conjunct2, THEN conjunct2, THEN conjunct2,
        THEN bspec, OF m(3)]
    by (simp add: show_int_examples)
  from a1 a2 a3 a4 a5 a6 r r' m show ?thesis
    by (intro conjI) simp_all
qed

subsection \<open>The unguarded division\<close>

lemma file_path_total:
  "noSubdirs \<or> fpd \<noteq> 0 \<Longrightarrow> \<exists>path. file_path d i fpd noSubdirs = Inr path"
  by (auto simp: file_path_def go_div_def Let_def)

lemma file_path_zero: "file_path d i 0 False = Inl DivideByZero"
  by (simp add: file_path_def go_div_def)

lemma main_go_files_per_dir:
  "main_go pageSize cpus args = Run req \<Longrightarrow>
     main_go pageSize cpus (args\<lparr>arg_files_per_dir := Some v\<rparr>) = Run (req\<lparr>req_filesPerDir := v\<rparr>)"
  by (auto simp: main_go_def parse_flags_def flag_value_def Let_def split: if_splits sum.splits)

lemma main_go_Run_subdirs:
  "main_go pageSize cpus args = Run req \<Longrightarrow>
     req_filesPerDir req = flag_value defaultFilesPerDir (arg_files_per_dir args)
     \<and> req_noSubdirs req = flag_value False (arg_no_subdirs args)"
  by (auto simp: main_go_def parse_flags_def Let_def split: if_splits sum.splits)

lemma producer_zero:
  "startNum \<le> endNum \<Longrightarrow>
     producer d startNum endNum 0 False numWorkers capacity = Some (Inl DivideByZero)"
  by (simp add: producer_def
      producer_loop.simps [of d endNum 0 False numWorkers capacity startNum] file_path_zero)

text \<open>
  C9. The path computation divides the index by the number of files per subdirectory
  without a guard, and \<open>main\<close> hands any value of the flag through unchecked. With a
  value other than zero the computation yields a path for every index. With the flag
  given as 0 and subdirectories in use, \<open>main\<close> starts the run and the producer ends in
  the panic of the division by zero at the first index, before it sends anything and
  whatever the number of workers and the capacity of the job channel.
\<close>

theorem file_path_division_unguarded:
  "(fpd \<noteq> 0 \<longrightarrow> (\<exists>path. file_path d i fpd noSubdirs = Inr path))
   \<and> file_path d i 0 False = Inl DivideByZero
   \<and> (\<forall>req v. main_go pageSize cpus args = Run req \<longrightarrow>
        main_go pageSize cpus (args\<lparr>arg_files_per_dir := Some v\<rparr>)
          = Run (req\<lparr>req_filesPerDir := v\<rparr>))
   \<and> (\<forall>req. main_go pageSize cpus (args\<lparr>arg_files_per_dir := Some 0, arg_no_subdirs := None\<rparr>)
               = Run req
             \<and> req_startNum req \<le> req_endNum req \<longrightarrow>
        (\<forall>capacity.
           producer (req_directory req) (req_startNum req) (req_endNum req) (req_filesPerDir req)
               (req_noSubdirs req) (req_numWorkers req) capacity
             = Some (Inl DivideByZero)))"
proof -
  have a: "fpd \<noteq> 0 \<longrightarrow> (\<exists>path. file_path d i fpd noSubdirs = Inr path)"
    using file_path_total [of noSubdirs fpd d i] by simp
  have b: "\<forall>req v. main_go pageSize cpus args = Run req \<longrightarrow>
        main_go pageSize cpus (args\<lparr>arg_files_per_dir := Some v\<rparr>)
          = Run (req\<lparr>req_filesPerDir := v\<rparr>)"
    using main_go_files_per_dir by blast
  have c: "\<forall>req. main_go pageSize cpus (args\<lparr>arg_files_per_dir := Some 0, arg_no_subdirs := None\<rparr>)
               = Run req
             \<and> req_startNum req \<le> req_endNum req \<longrightarrow>
        (\<forall>capacity.
           producer (req_directory req) (req_startNum req) (req_endNum req) (req_filesPerDir req)
               (req_noSubdirs req) (req_numWorkers req) capacity
             = Some (Inl DivideByZero))"
  proof (rule allI, rule impI)
    fix req
    assume h: "main_go pageSize cpus (args\<lparr>arg_files_per_dir := Some 0, arg_no_subdirs := None\<rparr>)
               = Run req \<and> req_startNum req \<le> req_endNum req"
    then have "req_filesPerDir req = 0 \<and> req_noSubdirs req = False"
      using main_go_Run_subdirs
        [of pageSize cpus "args\<lparr>arg_files_per_dir := Some 0, arg_no_subdirs := None\<rparr>" req]
      by (simp add: flag_value_def)
    with h show "\<forall>capacity.
        producer (req_directory req) (req_startNum req) (req_endNum req)
          (req_filesPerDir req) (req_noSubdirs req) (req_numWorkers req) capacity
        = Some (Inl DivideByZero)"
      by (simp add: producer_zero)
  qed
  from a b c file_path_zero [of d i] show ?thesis
    by blast
qed

lemma main_go_zero_files_example:
  "main_go 4096 8 (example_args\<lparr>arg_files_per_dir := Some 0, arg_no_subdirs := None\<rparr>) =
     Run \<lparr>req_directory = ''out'', req_startNum = 1, req_endNum = 3, req_fileSize = 1024,
          req_filesPerDir = 0, req_bufferSize = 1048576, req_numWorkers = 9,
          req_noSubdirs = False\<rparr>"
  by (simp add: main_go_def example_args_def parse_flags_def flag_value_def parseSize_1KB
      getOptimalBufferSize_def getOptimalWorkerCount_def wrap64_def minBufferSize_def
      maxBufferSize_def defaultFilesPerDir_def Let_def)

theorem file_path_division_unguarded_witness:
  "(10000 :: int) \<noteq> 0 \<and> (\<exists>path. file_path ''out'' 1 10000 False = Inr path)
   \<and> file_path ''out'' 1 0 False = Inl DivideByZero
   \<and> (\<exists>req. main_go 4096 8 example_args = Run req
        \<and> main_go 4096 8 (example_args\<lparr>arg_files_per_dir := Some 0\<rparr>)
            = Run (req\<lparr>req_filesPerDir := 0\<rparr>))
   \<and> (\<exists>req. main_go 4096 8 (example_args\<lparr>arg_files_per_dir := Some 0, arg_no_subdirs := None\<rparr>)
              = Run req
        \<and> req_startNum req \<le> req_endNum req
        \<and> (\<forall>capacity.
             producer (req_directory req) (req_startNum req) (req_endNum req)
                 (req_filesPerDir req) (req_noSubdirs req) (req_numWorkers req) capacity
               = Some (Inl DivideByZero)))"
proof -
  note t = file_path_division_unguarded [of 10000 "''out''" 1 False 4096 8 example_args]
  have a: "\<exists>path. file_path ''out'' 1 10000 False = Inr path"
    using t [THEN conjunct1] by simp
  have b: "file_path ''out'' 1 0 False = Inl DivideByZero"
    using t [THEN conjunct2, THEN conjunct1] .
  have c: "\<exists>req. main_go 4096 8 example_args = Run req
        \<and> main_go 4096 8 (example_args\<lparr>arg_files_per_dir := Some 0\<rparr>)
            = Run (req\<lparr>req_filesPerDir := 0\<rparr>)"
    using t [THEN conjunct2, THEN conjunct2, THEN conjunct1, rule_format, OF main_go_example]
      main_go_example by blast
  have d: "\<exists>req. main_go 4096 8 (example_args\<lparr>arg_files_per_dir := Some 0, arg_no_subdirs := None\<rparr>)
              = Run req
        \<and> req_startNum req \<le> req_endNum req
        \<and> (\<forall>capacity.
             producer (req_directory req) (req_startNum req) (req_endNum req)
                 (req_filesPerDir req) (req_noSubdirs req) (req_numWorkers req) capacity
               = Some (Inl DivideByZero))"
    using t [THEN conjunct2, THEN conjunct2, THEN conjunct2, rule_format,
        OF conjI [OF main_go_zero_files_example]] main_go_zero_files_example
    by simp
  from a b c d show ?thesis
    by simp
qed

subsection \<open>Decimal numerals\<close>

lemma digit_char_is_digit: "d < 10 \<Longrightarrow> is_digit (digit_char d)"
  by (auto simp: is_digit_def digit_char_def less_Suc_eq numeral_eq_Suc nth_Cons')

lemma digit_char_inj:
  assumes "a < 10" "b < 10" "digit_char a = digit_char b"
  shows "a = b"
proof -
  have "distinct ''0123456789''" by simp
  moreover have "a < length ''0123456789''" "b < length ''0123456789''"
    using assms by simp_all
  ultimately show ?thesis
    using assms(3) unfolding digit_char_def by (simp only: nth_eq_iff_index_eq)
qed

lemma show_nat_nonempty: "show_nat n \<noteq> []"
  by (subst show_nat.simps) simp

lemma show_nat_digits: "c \<in> set (show_nat n) \<Longrightarrow> is_digit c"
proof (induction n rule: show_nat.induct)
  case (1 n)
  show ?case
  proof (cases "n < 10")
    case True
    with "1.prems" show ?thesis
      by (simp add: show_nat.simps [of n] digit_char_is_digit)
  next
    case False
    with "1.prems" "1.IH" show ?thesis
      by (auto simp: show_nat.simps [of n] digit_char_is_digit)
  qed
qed

lemma show_nat_inj: "show_nat n = show_nat m \<Longrightarrow> n = m"
proof (induction n arbitrary: m rule: show_nat.induct)
  case (1 n)
  show ?case
  proof (cases "n < 10")
    case n: True
    show ?thesis
    proof (cases "m < 10")
      case True
      with n "1.prems" show ?thesis
        by (simp add: show_nat.simps [of n] show_nat.simps [of m] digit_char_inj)
    next
      case False
      with n "1.prems" show_nat_nonempty [of "m div 10"] show ?thesis
        by (auto simp: show_nat.simps [of n] show_nat.simps [of m])
    qed
  next
    case n: False
    show ?thesis
    proof (cases "m < 10")
      case True
      with n "1.prems" show_nat_nonempty [of "n div 10"] show ?thesis
        by (auto simp: show_nat.simps [of n] show_nat.simps [of m])
    next
      case False
      with n "1.prems" have "show_nat (n div 10) = show_nat (m div 10)"
        and "digit_char (n mod 10) = digit_char (m mod 10)"
        by (simp_all add: show_nat.simps [of n] show_nat.simps [of m])
      with n "1.IH" have "n div 10 = m div 10" and "n mod 10 = m mod 10"
        by (simp_all add: digit_char_inj)
      then show ?thesis
        by (metis div_mult_mod_eq)
    qed
  qed
qed

lemma show_int_chars: "c \<in> set (show_int i) \<Longrightarrow> is_digit c \<or> c = CHR ''-''"
  by (auto simp: show_int_def show_nat_digits split: if_splits)

lemma show_int_inj: "show_int a = show_int b \<Longrightarrow> a = b"
proof -
  assume h: "show_int a = show_int b"
  have neq: "CHR ''-'' # xs \<noteq> show_nat k" for xs k
  proof
    assume "CHR ''-'' # xs = show_nat k"
    then have "CHR ''-'' \<in> set (show_nat k)"
      by (metis list.set_intros(1))
    then have "is_digit CHR ''-''"
      by (rule show_nat_digits)
    then show False
      by (simp add: is_digit_def)
  qed
  show "a = b"
  proof (cases "a < 0")
    case a: True
    show ?thesis
    proof (cases "b < 0")
      case True
      with a h have "nat (- a) = nat (- b)"
        by (simp add: show_int_def show_nat_inj)
      with a True show ?thesis by simp
    next
      case False
      with a h neq show ?thesis
        by (simp add: show_int_def)
    qed
  next
    case a: False
    show ?thesis
    proof (cases "b < 0")
      case True
      with a h neq [of "show_nat (nat (- b))" "nat a"] show ?thesis
        by (simp add: show_int_def)
    next
      case False
      with a h have "nat a = nat b"
        by (simp add: show_int_def show_nat_inj)
      with a False show ?thesis by simp
    qed
  qed
qed

lemma show_int_no_slash: "CHR ''/'' \<notin> set (show_int i)"
  using show_int_chars [of "CHR ''/''" i] by (auto simp: is_digit_def)

lemma file_path_inj:
  assumes "file_path d i fpd ns = Inr p" "file_path d j fpd ns = Inr p"
  shows "i = j"
proof (cases ns)
  case True
  with assms have "show_int i = show_int j"
    by (auto simp: file_path_def)
  then show ?thesis by (rule show_int_inj)
next
  case False
  with assms obtain a b where
    "p = d @ ''/subdir_'' @ show_int a @ ''/file_'' @ show_int i @ ''.bin''"
    "p = d @ ''/subdir_'' @ show_int b @ ''/file_'' @ show_int j @ ''.bin''"
    by (auto simp: file_path_def Let_def split: sum.splits)
  then have "show_int a @ CHR ''/'' # (''file_'' @ show_int i @ ''.bin'')
      = show_int b @ CHR ''/'' # (''file_'' @ show_int j @ ''.bin'')"
    by simp
  then have "''file_'' @ show_int i @ ''.bin'' = ''file_'' @ show_int j @ ''.bin''"
    using show_int_no_slash by (simp add: append_Cons_eq_iff)
  then have "show_int i = show_int j"
    by simp
  then show ?thesis by (rule show_int_inj)
qed

subsection \<open>The producer\<close>

lemma producer_loop_upto:
  assumes "noSubdirs \<or> fpd \<noteq> 0" "endNum < int_max" "0 < numWorkers"
  shows "int_min \<le> i \<Longrightarrow>
    \<exists>paths. producer_loop d endNum fpd noSubdirs numWorkers capacity i jobs
          = Some (Inr \<lparr>sent = jobs @ paths, closed = True\<rparr>)
        \<and> map Inr paths = map (\<lambda>j. file_path d j fpd noSubdirs) [i .. endNum]"
proof (induction "nat (endNum + 1 - i)" arbitrary: i jobs)
  case 0
  then have "\<not> i \<le> endNum" by simp
  then show ?case
    by (simp add: producer_loop.simps [of d endNum fpd noSubdirs numWorkers capacity i jobs])
next
  case (Suc k)
  then have le: "i \<le> endNum" by simp
  obtain p where p: "file_path d i fpd noSubdirs = Inr p"
    using file_path_total [OF assms(1)] by blast
  have "is_int64 (i + 1)"
    using le assms(2) Suc.prems by (simp add: is_int64_def)
  then have w: "wrap64 (i + 1) = i + 1"
    by (rule wrap64_id)
  have "k = nat (endNum + 1 - (i + 1))" and "int_min \<le> i + 1"
    using Suc.hyps(2) Suc.prems by simp_all
  from Suc.hyps(1) [OF this] obtain paths where
    r: "producer_loop d endNum fpd noSubdirs numWorkers capacity (i + 1) (jobs @ [p])
          = Some (Inr \<lparr>sent = (jobs @ [p]) @ paths, closed = True\<rparr>)"
    and m: "map Inr paths = map (\<lambda>j. file_path d j fpd noSubdirs) [i + 1 .. endNum]"
    by blast
  have "producer_loop d endNum fpd noSubdirs numWorkers capacity i jobs
      = Some (Inr \<lparr>sent = jobs @ p # paths, closed = True\<rparr>)"
    using le p w r assms(3)
    by (simp add: producer_loop.simps [of d endNum fpd noSubdirs numWorkers capacity i jobs])
  moreover have "map Inr (p # paths) = map (\<lambda>j. file_path d j fpd noSubdirs) [i .. endNum]"
    using le p m by (simp add: upto_rec1 [of i endNum])
  ultimately show ?case
    by blast
qed

lemma file_path_distinct:
  assumes "noSubdirs \<or> fpd \<noteq> 0"
    and "map Inr paths = map (\<lambda>j. file_path d j fpd noSubdirs) [a .. b]"
  shows "distinct paths"
proof -
  have "inj_on (\<lambda>j. file_path d j fpd noSubdirs) (set [a .. b])"
  proof (rule inj_onI)
    fix i j
    assume e: "file_path d i fpd noSubdirs = file_path d j fpd noSubdirs"
    obtain p where "file_path d i fpd noSubdirs = Inr p"
      using file_path_total [OF assms(1)] by blast
    with e show "i = j"
      by (simp add: file_path_inj [of d i fpd noSubdirs p j])
  qed
  then have "distinct (map (\<lambda>j. file_path d j fpd noSubdirs) [a .. b])"
    by (simp add: distinct_map)
  then have "distinct (map (Inr :: string \<Rightarrow> panic + string) paths)"
    by (simp only: assms(2))
  then show ?thesis
    by (simp add: distinct_map)
qed

lemma producer_loop_never:
  assumes "producer_loop d e fpd ns nw cap i jobs = Some y"
  shows "\<not> (e = int_max \<and> ns \<and> 0 < nw \<and> is_int64 i)"
proof (rule producer_loop.raw_induct
    [where P = "\<lambda>d e fpd ns nw cap i jobs y. \<not> (e = int_max \<and> ns \<and> 0 < nw \<and> is_int64 i)",
      OF _ assms])
  fix f :: "string \<Rightarrow> int \<Rightarrow> int \<Rightarrow> bool \<Rightarrow> int \<Rightarrow> nat \<Rightarrow> int \<Rightarrow> string list
      \<Rightarrow> (panic + job_queue) option"
    and d e fpd ns nw cap i jobs y
  assume ih: "\<And>d e fpd ns nw cap i jobs y. f d e fpd ns nw cap i jobs = Some y
      \<Longrightarrow> \<not> (e = int_max \<and> ns \<and> 0 < nw \<and> is_int64 i)"
    and step: "(if i \<le> e
      then case file_path d i fpd ns of
             Inl p \<Rightarrow> Some (Inl p)
           | Inr filePath \<Rightarrow>
               if 0 < nw \<or> length jobs < cap
               then f d e fpd ns nw cap (wrap64 (i + 1)) (jobs @ [filePath])
               else Some (Inr \<lparr>sent = jobs, closed = False\<rparr>)
      else Some (Inr \<lparr>sent = jobs, closed = True\<rparr>)) = Some y"
  show "\<not> (e = int_max \<and> ns \<and> 0 < nw \<and> is_int64 i)"
  proof
    assume a: "e = int_max \<and> ns \<and> 0 < nw \<and> is_int64 i"
    then have "i \<le> e"
      by (simp add: is_int64_def)
    moreover obtain p where "file_path d i fpd ns = Inr p"
      using a file_path_total [of ns fpd d i] by blast
    ultimately have "f d e fpd ns nw cap (wrap64 (i + 1)) (jobs @ [p]) = Some y"
      using step a by simp
    then have "\<not> (e = int_max \<and> ns \<and> 0 < nw \<and> is_int64 (wrap64 (i + 1)))"
      by (rule ih)
    with a show False
      by (simp add: wrap64_range)
  qed
qed

lemma make_chan_made:
  assumes "0 \<le> numWorkers" "elemSize * (numWorkers * 2) \<le> maxAlloc - hchanSize"
    "numWorkers * 2 \<le> int_max"
  shows "make_chan False elemSize (wrap64 (numWorkers * 2)) = Inr (nat (numWorkers * 2))"
proof -
  have "is_int64 (numWorkers * 2)"
    using assms(1,3) by (simp add: is_int64_def int_min_def)
  then have "wrap64 (numWorkers * 2) = numWorkers * 2"
    by (rule wrap64_id)
  with assms show ?thesis
    by (simp add: make_chan_def)
qed

lemma createRandomDataFiles_producer:
  assumes "0 \<le> numWorkers" "32 * numWorkers \<le> maxAlloc - hchanSize"
  shows "createRandomDataFiles False d startNum endNum fileSize fpd bufferSize numWorkers noSubdirs
    = producer d startNum endNum fpd noSubdirs numWorkers (nat (numWorkers * 2))"
proof -
  have m: "numWorkers * 2 \<le> int_max"
    using assms by (simp add: maxAlloc_def hchanSize_def int_max_def)
  have "make_chan False 16 (wrap64 (numWorkers * 2)) = Inr (nat (numWorkers * 2))"
    using assms m by (intro make_chan_made) simp_all
  moreover have "make_chan False 8 (wrap64 (numWorkers * 2)) = Inr (nat (numWorkers * 2))"
    using assms m by (intro make_chan_made) simp_all
  ultimately show ?thesis
    by (simp add: createRandomDataFiles_def)
qed

text \<open>
  C5, as the producer has it. For a run that \<open>main\<close> starts, on a machine with the
  memory the run asks for, with a start index that is a 64-bit integer and not above the
  end index, an end index below the largest 64-bit integer, a number of files per
  subdirectory other than zero where subdirectories are in use, and at least one worker,
  their number small enough for the two channels to be made, the producer sends the
  paths of the indices from start to end in ascending order, one per index:
  end - start + 1 paths, no two of them equal; then it closes the queue.
\<close>

theorem producer_enumerates:
  assumes "main_go pageSize cpus args = Run req"
    and "is_int64 (req_startNum req)" "req_startNum req \<le> req_endNum req"
    and "req_endNum req < int_max"
    and "req_noSubdirs req \<or> req_filesPerDir req \<noteq> 0"
    and "0 < req_numWorkers req" "32 * req_numWorkers req \<le> maxAlloc - hchanSize"
  shows "\<exists>jobs. start_run req = Some (Inr \<lparr>sent = jobs, closed = True\<rparr>)
           \<and> map Inr jobs
               = map (\<lambda>i. file_path (req_directory req) i (req_filesPerDir req) (req_noSubdirs req))
                   [req_startNum req .. req_endNum req]
           \<and> length jobs = nat (req_endNum req - req_startNum req + 1)
           \<and> distinct jobs"
proof -
  let ?d = "req_directory req" and ?fpd = "req_filesPerDir req" and ?ns = "req_noSubdirs req"
  have "int_min \<le> req_startNum req"
    using assms(2) by (simp add: is_int64_def)
  from producer_loop_upto [OF assms(5,4,6) this, of ?d "nat (req_numWorkers req * 2)" "[]"]
  obtain jobs where
    r: "producer_loop ?d (req_endNum req) ?fpd ?ns (req_numWorkers req)
          (nat (req_numWorkers req * 2)) (req_startNum req) []
        = Some (Inr \<lparr>sent = jobs, closed = True\<rparr>)"
    and m: "map Inr jobs = map (\<lambda>i. file_path ?d i ?fpd ?ns) [req_startNum req .. req_endNum req]"
    by auto
  have "length (map (Inr :: string \<Rightarrow> panic + string) jobs)
      = length [req_startNum req .. req_endNum req]"
    by (simp only: m length_map)
  then have "length jobs = nat (req_endNum req - req_startNum req + 1)"
    by simp
  moreover have "distinct jobs"
    using assms(5) m by (rule file_path_distinct)
  moreover have "start_run req = Some (Inr \<lparr>sent = jobs, closed = True\<rparr>)"
    using r assms(6,7) by (simp add: start_run_def createRandomDataFiles_producer producer_def)
  ultimately show ?thesis
    using m by blast
qed

lemma start_run_example:
  "start_run \<lparr>req_directory = ''out'', req_startNum = 1, req_endNum = 3, req_fileSize = 1024,
          req_filesPerDir = 10000, req_bufferSize = 1048576, req_numWorkers = 9,
          req_noSubdirs = False\<rparr>
     = Some (Inr \<lparr>sent = [''out/subdir_0/file_1.bin'', ''out/subdir_0/file_2.bin'',
                          ''out/subdir_0/file_3.bin''], closed = True\<rparr>)"
  by code_simp

theorem producer_enumerates_witness:
  "(\<exists>req. main_go 4096 8 example_args = Run req
      \<and> is_int64 (req_startNum req) \<and> req_startNum req \<le> req_endNum req
      \<and> req_endNum req < int_max \<and> req_filesPerDir req \<noteq> 0
      \<and> 0 < req_numWorkers req \<and> 32 * req_numWorkers req \<le> maxAlloc - hchanSize
      \<and> start_run req
          = Some (Inr \<lparr>sent = [''out/subdir_0/file_1.bin'', ''out/subdir_0/file_2.bin'',
                               ''out/subdir_0/file_3.bin''], closed = True\<rparr>)
      \<and> (\<exists>jobs. start_run req = Some (Inr \<lparr>sent = jobs, closed = True\<rparr>)
            \<and> length jobs = 3 \<and> distinct jobs))"
proof -
  let ?req = "\<lparr>req_directory = ''out'', req_startNum = 1, req_endNum = 3, req_fileSize = 1024,
          req_filesPerDir = 10000, req_bufferSize = 1048576, req_numWorkers = 9,
          req_noSubdirs = False\<rparr>"
  have h: "is_int64 (req_startNum ?req)" "req_startNum ?req \<le> req_endNum ?req"
    "req_endNum ?req < int_max" "req_noSubdirs ?req \<or> req_filesPerDir ?req \<noteq> 0"
    "0 < req_numWorkers ?req" "32 * req_numWorkers ?req \<le> maxAlloc - hchanSize"
    by (simp_all add: is_int64_def int_min_def int_max_def maxAlloc_def hchanSize_def)
  from producer_enumerates [OF main_go_example h] obtain jobs where
    "start_run ?req = Some (Inr \<lparr>sent = jobs, closed = True\<rparr>)"
    "length jobs = nat (req_endNum ?req - req_startNum ?req + 1)" "distinct jobs"
    by blast
  then have "\<exists>jobs. start_run ?req = Some (Inr \<lparr>sent = jobs, closed = True\<rparr>)
        \<and> length jobs = 3 \<and> distinct jobs"
    by auto
  with h start_run_example main_go_example show ?thesis
    by simp
qed

lemma main_go_last_index_example: "main_go 4096 8 last_index_args = Run last_index_request"
  by (simp add: main_go_def last_index_args_def last_index_request_def parse_flags_def
      flag_value_def parseSize_1KB getOptimalBufferSize_def getOptimalWorkerCount_def wrap64_def
      minBufferSize_def maxBufferSize_def defaultFilesPerDir_def Let_def)

text \<open>
  Without the bound on the end index the statement fails: asked for the one file with
  start and end index \<open>2^63 - 1\<close>, \<open>main\<close> starts the run with nine workers; the loop
  counter wraps around to \<open>- 2^63\<close> after the first path, stays below the end index for
  ever, and the producer never closes the queue.
\<close>

theorem producer_wraps_counterexample:
  "main_go 4096 8 last_index_args = Run last_index_request
   \<and> is_int64 (req_startNum last_index_request)
   \<and> req_startNum last_index_request \<le> req_endNum last_index_request
   \<and> req_numWorkers last_index_request = 9
   \<and> start_run last_index_request = None"
proof -
  have m: "(9223372036854775807 :: int) = int_max"
    by (simp add: int_max_def)
  have "producer_loop ''out'' int_max 10000 True 9 18 int_max [] = None"
  proof (cases "producer_loop ''out'' int_max 10000 True 9 18 int_max []")
    case None
    then show ?thesis .
  next
    case (Some y)
    then have "\<not> (int_max = int_max \<and> True \<and> (0 :: int) < 9 \<and> is_int64 int_max)"
      by (rule producer_loop_never)
    then show ?thesis
      by (simp add: is_int64_def int_min_def int_max_def)
  qed
  moreover have "start_run last_index_request = producer ''out'' int_max int_max 10000 True 9 18"
    unfolding start_run_def last_index_request_def m
    by (subst createRandomDataFiles_producer) (simp_all add: maxAlloc_def hchanSize_def)
  ultimately have "start_run last_index_request = None"
    by (simp add: producer_def)
  moreover have "is_int64 (req_startNum last_index_request)"
    "req_startNum last_index_request \<le> req_endNum last_index_request"
    "req_numWorkers last_index_request = 9"
    by (simp_all add: last_index_request_def is_int64_def int_min_def int_max_def)
  ultimately show ?thesis
    using main_go_last_index_example by (intro conjI)
qed

text \<open>
  Without a worker the statement fails as well. \<open>main\<close> hands any number of workers
  through: with the flag given as 0 the job channel has no buffer and nothing receives
  from it, so the producer stays in its first send and never closes the queue; with a
  negative number the channels cannot be made.
\<close>

lemma start_run_without_workers:
  assumes "req_numWorkers req = 0" "req_startNum req \<le> req_endNum req"
    and "req_noSubdirs req \<or> req_filesPerDir req \<noteq> 0"
  shows "start_run req = Some (Inr \<lparr>sent = [], closed = False\<rparr>)"
proof -
  obtain p where "file_path (req_directory req) (req_startNum req) (req_filesPerDir req)
      (req_noSubdirs req) = Inr p"
    using file_path_total [OF assms(3)] by blast
  then have "producer (req_directory req) (req_startNum req) (req_endNum req)
      (req_filesPerDir req) (req_noSubdirs req) 0 0 = Some (Inr \<lparr>sent = [], closed = False\<rparr>)"
    using assms(2)
    by (simp add: producer_def producer_loop.simps [of "req_directory req" "req_endNum req"
          "req_filesPerDir req" "req_noSubdirs req" 0 0 "req_startNum req" "[]"])
  then show ?thesis
    using assms(1)
    by (simp add: start_run_def createRandomDataFiles_def make_chan_def wrap64_def
        maxAlloc_def hchanSize_def)
qed

lemma start_run_without_workers_example:
  "\<exists>req. main_go 4096 8 no_workers_args = Run req \<and> req_numWorkers req = 0
      \<and> start_run req = Some (Inr \<lparr>sent = [], closed = False\<rparr>)"
proof -
  have "main_go 4096 8 no_workers_args =
     Run \<lparr>req_directory = ''out'', req_startNum = 1, req_endNum = 3, req_fileSize = 1024,
          req_filesPerDir = 10000, req_bufferSize = 1048576, req_numWorkers = 0,
          req_noSubdirs = False\<rparr>"
    by (simp add: main_go_def no_workers_args_def parse_flags_def flag_value_def parseSize_1KB
      getOptimalBufferSize_def getOptimalWorkerCount_def wrap64_def minBufferSize_def
      maxBufferSize_def defaultFilesPerDir_def Let_def)
  then show ?thesis
    by (simp add: start_run_without_workers defaultFilesPerDir_def)
qed

lemma start_run_negative_workers_example:
  "\<exists>req. main_go 4096 8 (no_workers_args\<lparr>arg_workers := Some (- 1)\<rparr>) = Run req
      \<and> req_numWorkers req = - 1
      \<and> start_run req = Some (Inl MakeChanSizeOutOfRange)"
proof -
  have "main_go 4096 8 (no_workers_args\<lparr>arg_workers := Some (- 1)\<rparr>) =
     Run \<lparr>req_directory = ''out'', req_startNum = 1, req_endNum = 3, req_fileSize = 1024,
          req_filesPerDir = 10000, req_bufferSize = 1048576, req_numWorkers = - 1,
          req_noSubdirs = False\<rparr>"
    by (simp add: main_go_def no_workers_args_def parse_flags_def flag_value_def parseSize_1KB
      getOptimalBufferSize_def getOptimalWorkerCount_def wrap64_def minBufferSize_def
      maxBufferSize_def defaultFilesPerDir_def Let_def)
  then show ?thesis
    by (simp add: start_run_def createRandomDataFiles_def make_chan_def wrap64_def)
qed

subsection \<open>The file writer\<close>

lemma bw_flush_ok:
  "bw_flush env w = (w', None) \<Longrightarrow>
     bw_file w' = bw_file w @ bw_buf w \<and> bw_buf w' = [] \<and> bw_size w' = bw_size w"
  by (auto simp: bw_flush_def file_write_def split: if_splits option.splits)

lemma bw_write_ok:
  "bw_write env w p = (w', None) \<Longrightarrow>
     bw_file w' @ bw_buf w' = bw_file w @ bw_buf w @ p \<and> bw_size w' = bw_size w"
proof (induction env w p arbitrary: w' rule: bw_write.induct)
  case (1 env w p)
  show ?case
  proof (cases "length p > bw_size w - length (bw_buf w)")
    case False
    with "1.prems" show ?thesis
      by (auto simp: bw_write.simps [of env w p])
  next
    case big: True
    show ?thesis
    proof (cases "bw_buf w = []")
      case True
      obtain d e where fw: "file_write env (bw_file w) p = (d, e)"
        by (cases "file_write env (bw_file w) p")
      with big True "1.prems" have e: "e = None"
        and r: "bw_write env (w\<lparr>bw_file := d\<rparr>) [] = (w', None)"
        by (auto simp: bw_write.simps [of env w p] split: option.splits)
      from fw e have d: "d = bw_file w @ p"
        by (auto simp: file_write_def split: option.splits)
      from "1.IH"(1) [OF big True fw [symmetric] e r] True d show ?thesis
        by simp
    next
      case False
      let ?n = "bw_size w - length (bw_buf w)"
      obtain w1 e where fl: "bw_flush env (w\<lparr>bw_buf := bw_buf w @ take ?n p\<rparr>) = (w1, e)"
        by (cases "bw_flush env (w\<lparr>bw_buf := bw_buf w @ take ?n p\<rparr>)")
      with big False "1.prems" have e: "e = None"
        and r: "bw_write env w1 (drop ?n p) = (w', None)"
        by (auto simp: bw_write.simps [of env w p] split: option.splits)
      from bw_flush_ok [OF fl [unfolded e]]
      have w1: "bw_file w1 = bw_file w @ bw_buf w @ take ?n p" "bw_buf w1 = []"
        "bw_size w1 = bw_size w"
        by simp_all
      from "1.IH"(2) [OF big False fl [symmetric] e r] w1
      have "bw_file w' @ bw_buf w' = (bw_file w @ bw_buf w @ take ?n p) @ drop ?n p"
        and "bw_size w' = bw_size w"
        by simp_all
      then show ?thesis
        by simp
    qed
  qed
qed

lemma bw_write_returns: "\<exists>w' e. bw_write env w p = (w', e)"
  by (cases "bw_write env w p") blast

lemma rand_read_ok:
  "rand_read env pos n = Inr buffer \<Longrightarrow> buffer = map (rand_bytes env) [pos ..< pos + n]"
  by (auto simp: rand_read_def split: option.splits)

lemma spec_chunks_done: "remaining \<le> 0 \<Longrightarrow> spec_chunks bufferSize remaining = []"
  by (simp add: spec_chunks.simps [of bufferSize remaining])

lemma spec_chunks_step:
  "0 < remaining \<Longrightarrow> 0 < bufferSize \<Longrightarrow>
     spec_chunks bufferSize remaining
       = (if remaining < bufferSize then remaining else bufferSize)
         # spec_chunks bufferSize
             (remaining - (if remaining < bufferSize then remaining else bufferSize))"
  by (subst spec_chunks.simps) (simp add: min_def)

lemma spec_chunks_sum:
  "0 < bufferSize \<Longrightarrow> 0 \<le> remaining \<Longrightarrow> sum_list (spec_chunks bufferSize remaining) = remaining"
proof (induction bufferSize remaining rule: spec_chunks.induct)
  case (1 bufferSize remaining)
  show ?case
  proof (cases "0 < remaining")
    case True
    with "1.prems" "1.IH" show ?thesis
      by (subst spec_chunks.simps) (simp add: min_def)
  next
    case False
    with "1.prems" show ?thesis
      by (simp add: spec_chunks_done)
  qed
qed

lemma spec_chunks_positive:
  "c \<in> set (spec_chunks bufferSize remaining) \<Longrightarrow> 0 < c \<and> c \<le> bufferSize"
proof (induction bufferSize remaining rule: spec_chunks.induct)
  case (1 bufferSize remaining)
  show ?case
  proof (cases "0 < remaining \<and> 0 < bufferSize")
    case True
    with "1.prems" "1.IH" show ?thesis
      by (subst (asm) spec_chunks.simps) (auto simp: min_def split: if_splits)
  next
    case False
    with "1.prems" show ?thesis
      by (subst (asm) spec_chunks.simps) simp
  qed
qed

lemma write_loop_returns:
  assumes "0 < bufferSize"
  shows "remaining \<le> int_max \<Longrightarrow>
    \<exists>r. write_loop env filePath bufferSize remaining pos chunks w = Some r"
proof (induction "nat remaining" arbitrary: remaining pos chunks w rule: less_induct)
  case less
  show ?case
  proof (cases "0 < remaining")
    case False
    then show ?thesis
      by (simp add: write_loop.simps [of env filePath bufferSize remaining pos chunks w])
  next
    case True
    let ?c = "if remaining < bufferSize then remaining else bufferSize"
    have c: "0 < ?c" "?c \<le> remaining"
      using True assms by simp_all
    then have "is_int64 (remaining - ?c)"
      using less.prems by (simp add: is_int64_def int_min_def)
    then have w: "wrap64 (remaining - ?c) = remaining - ?c"
      by (rule wrap64_id)
    show ?thesis
    proof (cases "rand_read env pos (nat ?c)")
      case (Inl e)
      with True show ?thesis
        by (simp add: write_loop.simps [of env filePath bufferSize remaining pos chunks w] Let_def)
    next
      case (Inr buffer)
      obtain w1 e where bw: "bw_write env w buffer = (w1, e)"
        using bw_write_returns by blast
      show ?thesis
      proof (cases e)
        case (Some err)
        with True Inr bw show ?thesis
          by (simp add: write_loop.simps [of env filePath bufferSize remaining pos chunks w] Let_def)
      next
        case None
        have "nat (remaining - ?c) < nat remaining" "remaining - ?c \<le> int_max"
          using c less.prems by simp_all
        from less.hyps [OF this, of "pos + nat ?c" "chunks @ [?c]" w1] obtain r where
          "write_loop env filePath bufferSize (remaining - ?c) (pos + nat ?c) (chunks @ [?c]) w1
             = Some r"
          by blast
        with True Inr bw None w
        have "write_loop env filePath bufferSize remaining pos chunks w = Some r"
          by (simp add: write_loop.simps [of env filePath bufferSize remaining pos chunks w] Let_def)
        then show ?thesis
          by blast
      qed
    qed
  qed
qed

lemma write_loop_ok:
  assumes "0 < bufferSize"
  shows "remaining \<le> int_max \<Longrightarrow>
    write_loop env filePath bufferSize remaining pos chunks w = Some (w', chunks', None) \<Longrightarrow>
    bw_file w' @ bw_buf w'
        = bw_file w @ bw_buf w @ map (rand_bytes env) [pos ..< pos + nat remaining]
      \<and> chunks' = chunks @ spec_chunks bufferSize remaining
      \<and> bw_size w' = bw_size w"
proof (induction "nat remaining" arbitrary: remaining pos chunks w rule: less_induct)
  case less
  show ?case
  proof (cases "0 < remaining")
    case False
    with less.prems(2) show ?thesis
      by (simp add: write_loop.simps [of env filePath bufferSize remaining pos chunks w]
          spec_chunks_done)
  next
    case True
    let ?c = "if remaining < bufferSize then remaining else bufferSize"
    have c: "0 < ?c" "?c \<le> remaining"
      using True assms by simp_all
    then have "is_int64 (remaining - ?c)"
      using less.prems(1) by (simp add: is_int64_def int_min_def)
    then have w: "wrap64 (remaining - ?c) = remaining - ?c"
      by (rule wrap64_id)
    obtain w1 e where bw:
      "bw_write env w (map (rand_bytes env) [pos ..< pos + nat ?c]) = (w1, e)"
      using bw_write_returns by blast
    from less.prems(2) True have rr: "rand_read env pos (nat ?c)
        = Inr (map (rand_bytes env) [pos ..< pos + nat ?c])"
      by (cases "rand_read env pos (nat ?c)")
         (auto simp: write_loop.simps [of env filePath bufferSize remaining pos chunks w] Let_def
            dest: rand_read_ok)
    from less.prems(2) True rr bw have e: "e = None"
      by (cases e)
         (auto simp: write_loop.simps [of env filePath bufferSize remaining pos chunks w] Let_def)
    from less.prems(2) True rr bw e w
    have rec: "write_loop env filePath bufferSize (remaining - ?c) (pos + nat ?c) (chunks @ [?c]) w1
        = Some (w', chunks', None)"
      by (simp add: write_loop.simps [of env filePath bufferSize remaining pos chunks w] Let_def)
    have m: "nat (remaining - ?c) < nat remaining" "remaining - ?c \<le> int_max"
      using c less.prems(1) by simp_all
    from less.hyps [OF m rec]
    have ih: "bw_file w' @ bw_buf w' = bw_file w1 @ bw_buf w1
          @ map (rand_bytes env) [pos + nat ?c ..< pos + nat ?c + nat (remaining - ?c)]"
      "chunks' = (chunks @ [?c]) @ spec_chunks bufferSize (remaining - ?c)"
      "bw_size w' = bw_size w1"
      by simp_all
    from bw_write_ok [OF bw [unfolded e]]
    have w1: "bw_file w1 @ bw_buf w1
        = bw_file w @ bw_buf w @ map (rand_bytes env) [pos ..< pos + nat ?c]"
      "bw_size w1 = bw_size w"
      by simp_all
    have n: "pos + nat ?c + nat (remaining - ?c) = pos + nat remaining"
      using c by (simp add: nat_diff_distrib)
    have "[pos ..< pos + nat remaining]
        = [pos ..< pos + nat ?c] @ [pos + nat ?c ..< pos + nat ?c + nat (remaining - ?c)]"
      using upt_add_eq_append [of pos "pos + nat ?c" "nat (remaining - ?c)"]
      by (simp only: n le_add1)
    then have bytes: "map (rand_bytes env) [pos ..< pos + nat remaining]
        = map (rand_bytes env) [pos ..< pos + nat ?c]
          @ map (rand_bytes env) [pos + nat ?c ..< pos + nat ?c + nat (remaining - ?c)]"
      by (simp only: map_append)
    have "bw_file w' @ bw_buf w'
        = bw_file w @ bw_buf w @ map (rand_bytes env) [pos ..< pos + nat remaining]"
      using ih(1) w1(1) bytes
      by (metis append.assoc)
    moreover have "chunks' = chunks @ spec_chunks bufferSize remaining"
      using ih(2) spec_chunks_step [OF True assms] by simp
    ultimately show ?thesis
      using ih(3) w1(2) by simp
  qed
qed

lemma bw_flush_quiet:
  "fwrite_error env = (\<lambda>_. None) \<Longrightarrow> \<exists>w'. bw_flush env w = (w', None)"
  by (simp add: bw_flush_def file_write_def)

lemma bw_write_quiet:
  "fwrite_error env = (\<lambda>_. None) \<Longrightarrow> \<exists>w'. bw_write env w p = (w', None)"
proof (induction env w p rule: bw_write.induct)
  case (1 env w p)
  show ?case
  proof (cases "length p > bw_size w - length (bw_buf w)")
    case False
    then show ?thesis
      by (simp add: bw_write.simps [of env w p])
  next
    case big: True
    show ?thesis
    proof (cases "bw_buf w = []")
      case True
      have fw: "file_write env (bw_file w) p = (bw_file w @ p, None)"
        using "1.prems" by (simp add: file_write_def)
      from "1.IH"(1) [OF big True fw [symmetric] refl "1.prems"] obtain w' where
        "bw_write env (w\<lparr>bw_file := bw_file w @ p\<rparr>) [] = (w', None)"
        by blast
      with big True fw show ?thesis
        by (simp add: bw_write.simps [of env w p])
    next
      case False
      let ?n = "bw_size w - length (bw_buf w)"
      obtain w1 where fl: "bw_flush env (w\<lparr>bw_buf := bw_buf w @ take ?n p\<rparr>) = (w1, None)"
        using bw_flush_quiet [OF "1.prems"] by blast
      from "1.IH"(2) [OF big False fl [symmetric] refl "1.prems"] obtain w' where
        "bw_write env w1 (drop ?n p) = (w', None)"
        by blast
      with big False fl show ?thesis
        by (simp add: bw_write.simps [of env w p])
    qed
  qed
qed

lemma write_loop_quiet:
  assumes "0 < bufferSize" "rand_error env = (\<lambda>_. None)" "fwrite_error env = (\<lambda>_. None)"
  shows "remaining \<le> int_max \<Longrightarrow>
    \<exists>w' chunks'. write_loop env filePath bufferSize remaining pos chunks w
      = Some (w', chunks', None)"
proof (induction "nat remaining" arbitrary: remaining pos chunks w rule: less_induct)
  case less
  show ?case
  proof (cases "0 < remaining")
    case False
    then show ?thesis
      by (simp add: write_loop.simps [of env filePath bufferSize remaining pos chunks w])
  next
    case True
    let ?c = "if remaining < bufferSize then remaining else bufferSize"
    have c: "0 < ?c" "?c \<le> remaining"
      using True assms(1) by simp_all
    then have "is_int64 (remaining - ?c)"
      using less.prems by (simp add: is_int64_def int_min_def)
    then have w: "wrap64 (remaining - ?c) = remaining - ?c"
      by (rule wrap64_id)
    have rr: "rand_read env pos (nat ?c) = Inr (map (rand_bytes env) [pos ..< pos + nat ?c])"
      using assms(2) by (simp add: rand_read_def)
    obtain w1 where bw:
      "bw_write env w (map (rand_bytes env) [pos ..< pos + nat ?c]) = (w1, None)"
      using bw_write_quiet [OF assms(3)] by blast
    have "nat (remaining - ?c) < nat remaining" "remaining - ?c \<le> int_max"
      using c less.prems by simp_all
    from less.hyps [OF this, of "pos + nat ?c" "chunks @ [?c]" w1] obtain w' chunks' where
      "write_loop env filePath bufferSize (remaining - ?c) (pos + nat ?c) (chunks @ [?c]) w1
         = Some (w', chunks', None)"
      by blast
    with True rr bw w
    have "write_loop env filePath bufferSize remaining pos chunks w = Some (w', chunks', None)"
      by (simp add: write_loop.simps [of env filePath bufferSize remaining pos chunks w] Let_def)
    then show ?thesis
      by blast
  qed
qed

lemma make_bytes_made:
  "0 \<le> n \<Longrightarrow> n \<le> maxAlloc \<Longrightarrow> make_bytes False n = None"
  by (simp add: make_bytes_def)

lemma createRandomFile_total:
  assumes "0 < bufferSize" "fileSize \<le> int_max"
  shows "\<exists>r. createRandomFile env fs filePath fileSize bufferSize = Some r"
proof -
  obtain w chunks e where
    "write_loop env filePath bufferSize fileSize 0 [] (NewWriterSize [] bufferSize)
       = Some (w, chunks, e)"
    using write_loop_returns [OF assms, of env filePath 0 "[]" "NewWriterSize [] bufferSize"]
    by (metis prod_cases3)
  moreover obtain w' e' where "bw_flush env w = (w', e')"
    by (cases "bw_flush env w")
  ultimately show ?thesis
    using assms(1)
    by (cases "mkdir_error env"; cases "create_error env";
        cases "make_bytes (out_of_memory env) bufferSize"; cases e; cases e')
       (simp_all add: createRandomFile_def)
qed

lemma createRandomFile_returns:
  assumes "0 < bufferSize" "bufferSize \<le> maxAlloc" "fileSize \<le> int_max"
    and "\<not> out_of_memory env"
  shows "\<exists>fs' err. createRandomFile env fs filePath fileSize bufferSize = Some (Inr (fs', err))"
proof -
  obtain w chunks e where
    "write_loop env filePath bufferSize fileSize 0 [] (NewWriterSize [] bufferSize)
       = Some (w, chunks, e)"
    using write_loop_returns [OF assms(1,3), of env filePath 0 "[]" "NewWriterSize [] bufferSize"]
    by (metis prod_cases3)
  moreover obtain w' e' where "bw_flush env w = (w', e')"
    by (cases "bw_flush env w")
  moreover have "make_bytes (out_of_memory env) bufferSize = None"
    using assms(1,2,4) by (simp add: make_bytes_made)
  ultimately show ?thesis
    using assms(1)
    by (cases "mkdir_error env"; cases "create_error env"; cases e; cases e')
       (simp_all add: createRandomFile_def)
qed

lemma createRandomFile_ok:
  assumes "0 < bufferSize" "fileSize \<le> int_max"
    and "createRandomFile env fs filePath fileSize bufferSize = Some (Inr (fs', None))"
  shows "fs' = fs(filePath \<mapsto> map (rand_bytes env) [0 ..< nat fileSize])"
proof -
  from assms(1,3) obtain w chunks w' where
    l: "write_loop env filePath bufferSize fileSize 0 [] (NewWriterSize [] bufferSize)
       = Some (w, chunks, None)"
    and f: "bw_flush env w = (w', None)"
    and r: "fs' = fs(filePath \<mapsto> bw_file w')"
    by (auto simp: createRandomFile_def split: option.splits prod.splits if_splits)
  from write_loop_ok [OF assms(1,2) l]
  have "bw_file w @ bw_buf w = map (rand_bytes env) [0 ..< nat fileSize]"
    by (simp add: NewWriterSize_def)
  with bw_flush_ok [OF f] r show ?thesis
    by simp
qed

lemma createRandomFile_no_failure:
  assumes "0 < bufferSize" "bufferSize \<le> maxAlloc" "fileSize \<le> int_max" "no_failure env"
  shows "createRandomFile env fs filePath fileSize bufferSize
      = Some (Inr (fs(filePath \<mapsto> map (rand_bytes env) [0 ..< nat fileSize]), None))
    \<and> (\<exists>w. write_loop env filePath bufferSize fileSize 0 [] (NewWriterSize [] bufferSize)
          = Some (w, spec_chunks bufferSize fileSize, None))"
proof -
  have q: "mkdir_error env = None" "create_error env = None" "\<not> out_of_memory env"
    "rand_error env = (\<lambda>_. None)" "fwrite_error env = (\<lambda>_. None)"
    using assms(4) by (simp_all add: no_failure_def)
  obtain w chunks where
    l: "write_loop env filePath bufferSize fileSize 0 [] (NewWriterSize [] bufferSize)
       = Some (w, chunks, None)"
    using write_loop_quiet [OF assms(1) q(4,5) assms(3)] by blast
  obtain w' where f: "bw_flush env w = (w', None)"
    using bw_flush_quiet [OF q(5)] by blast
  have "make_bytes (out_of_memory env) bufferSize = None"
    using assms(1,2) q(3) by (simp add: make_bytes_made)
  with l f q(1,2) assms(1)
  have c: "createRandomFile env fs filePath fileSize bufferSize
      = Some (Inr (fs(filePath \<mapsto> bw_file w'), None))"
    by (simp add: createRandomFile_def)
  from createRandomFile_ok [OF assms(1,3) c] c
  have "createRandomFile env fs filePath fileSize bufferSize
      = Some (Inr (fs(filePath \<mapsto> map (rand_bytes env) [0 ..< nat fileSize]), None))"
    by simp
  moreover from write_loop_ok [OF assms(1,3) l] l
  have "write_loop env filePath bufferSize fileSize 0 [] (NewWriterSize [] bufferSize)
          = Some (w, spec_chunks bufferSize fileSize, None)"
    by simp
  ultimately show ?thesis
    by blast
qed

text \<open>
  C1. For a file size and a buffer size above zero, \<open>createRandomFile\<close> comes to an end,
  and with a buffer size that the runtime can allocate it returns to its caller. Where
  the operating system reports no failure it returns without an error, having written
  the file; and wherever it returns without an error the file holds exactly \<open>fileSize\<close>
  bytes, the random bytes in the order drawn. The chunks it hands to the buffered writer
  have the sizes \<open>min bufferSize remaining\<close> until nothing remains; each is positive and at
  most \<open>bufferSize\<close>, and their sum is \<open>fileSize\<close>.
\<close>

theorem createRandomFile_byte_exact:
  assumes "0 < fileSize" "fileSize \<le> int_max" "0 < bufferSize"
  shows "(\<exists>r. createRandomFile env fs filePath fileSize bufferSize = Some r)
    \<and> (bufferSize \<le> maxAlloc \<and> \<not> out_of_memory env \<longrightarrow>
          (\<exists>fs' err. createRandomFile env fs filePath fileSize bufferSize = Some (Inr (fs', err))))
    \<and> (bufferSize \<le> maxAlloc \<and> no_failure env \<longrightarrow>
          createRandomFile env fs filePath fileSize bufferSize
            = Some (Inr (fs(filePath \<mapsto> map (rand_bytes env) [0 ..< nat fileSize]), None))
          \<and> (\<exists>w. write_loop env filePath bufferSize fileSize 0 [] (NewWriterSize [] bufferSize)
                = Some (w, spec_chunks bufferSize fileSize, None)))
    \<and> (\<forall>fs'. createRandomFile env fs filePath fileSize bufferSize = Some (Inr (fs', None)) \<longrightarrow>
          fs' = fs(filePath \<mapsto> map (rand_bytes env) [0 ..< nat fileSize])
          \<and> (\<exists>content. fs' filePath = Some content \<and> int (length content) = fileSize))
    \<and> (\<forall>w chunks.
          write_loop env filePath bufferSize fileSize 0 [] (NewWriterSize [] bufferSize)
            = Some (w, chunks, None) \<longrightarrow>
          chunks = spec_chunks bufferSize fileSize
          \<and> sum_list chunks = fileSize
          \<and> (\<forall>c \<in> set chunks. 0 < c \<and> c \<le> bufferSize))"
proof -
  have t: "\<exists>r. createRandomFile env fs filePath fileSize bufferSize = Some r"
    using assms(3,2) by (rule createRandomFile_total)
  have a: "bufferSize \<le> maxAlloc \<and> \<not> out_of_memory env \<longrightarrow>
      (\<exists>fs' err. createRandomFile env fs filePath fileSize bufferSize = Some (Inr (fs', err)))"
    using createRandomFile_returns [OF assms(3) _ assms(2)] by blast
  have q: "bufferSize \<le> maxAlloc \<and> no_failure env \<longrightarrow>
          createRandomFile env fs filePath fileSize bufferSize
            = Some (Inr (fs(filePath \<mapsto> map (rand_bytes env) [0 ..< nat fileSize]), None))
          \<and> (\<exists>w. write_loop env filePath bufferSize fileSize 0 [] (NewWriterSize [] bufferSize)
                = Some (w, spec_chunks bufferSize fileSize, None))"
    using createRandomFile_no_failure [OF assms(3) _ assms(2)] by blast
  have b: "\<forall>fs'. createRandomFile env fs filePath fileSize bufferSize = Some (Inr (fs', None)) \<longrightarrow>
          fs' = fs(filePath \<mapsto> map (rand_bytes env) [0 ..< nat fileSize])
          \<and> (\<exists>content. fs' filePath = Some content \<and> int (length content) = fileSize)"
  proof (intro allI impI)
    fix fs'
    assume "createRandomFile env fs filePath fileSize bufferSize = Some (Inr (fs', None))"
    with assms(3,2) have "fs' = fs(filePath \<mapsto> map (rand_bytes env) [0 ..< nat fileSize])"
      by (rule createRandomFile_ok)
    with assms(1) show "fs' = fs(filePath \<mapsto> map (rand_bytes env) [0 ..< nat fileSize])
          \<and> (\<exists>content. fs' filePath = Some content \<and> int (length content) = fileSize)"
      by simp
  qed
  have c: "\<forall>w chunks.
          write_loop env filePath bufferSize fileSize 0 [] (NewWriterSize [] bufferSize)
            = Some (w, chunks, None) \<longrightarrow>
          chunks = spec_chunks bufferSize fileSize
          \<and> sum_list chunks = fileSize
          \<and> (\<forall>c \<in> set chunks. 0 < c \<and> c \<le> bufferSize)"
  proof (intro allI impI)
    fix w chunks
    assume "write_loop env filePath bufferSize fileSize 0 [] (NewWriterSize [] bufferSize)
            = Some (w, chunks, None)"
    from write_loop_ok [OF assms(3,2) this]
    have "chunks = spec_chunks bufferSize fileSize"
      by simp
    then show "chunks = spec_chunks bufferSize fileSize
          \<and> sum_list chunks = fileSize
          \<and> (\<forall>c \<in> set chunks. 0 < c \<and> c \<le> bufferSize)"
      using assms(1,3) spec_chunks_positive [of _ bufferSize fileSize]
      by (simp add: spec_chunks_sum)
  qed
  from t a q b c show ?thesis
    by (intro conjI)
qed

lemma quiet_no_failure: "no_failure quiet_env"
  by (simp add: no_failure_def quiet_env_def)

lemma quiet_bytes: "map (rand_bytes quiet_env) [0 ..< 7] = [0, 1, 2, 3, 4, 5, 6]"
  by code_simp

lemma spec_chunks_example: "spec_chunks 3 7 = [3, 3, 1]"
  by code_simp

theorem createRandomFile_byte_exact_witness:
  "(0 :: int) < 7 \<and> 7 \<le> int_max \<and> (0 :: int) < 3 \<and> 3 \<le> maxAlloc \<and> no_failure quiet_env
   \<and> createRandomFile quiet_env Map.empty ''out/file_1.bin'' 7 3
       = Some (Inr ([''out/file_1.bin'' \<mapsto> [0, 1, 2, 3, 4, 5, 6]], None))
   \<and> (\<exists>w. write_loop quiet_env ''out/file_1.bin'' 3 7 0 [] (NewWriterSize [] 3)
            = Some (w, [3, 3, 1], None))
   \<and> sum_list [3, 3, 1] = (7 :: int)"
proof -
  have h: "(0 :: int) < 7" "7 \<le> int_max" "(0 :: int) < 3"
    by (simp_all add: int_max_def)
  have m: "3 \<le> maxAlloc \<and> no_failure quiet_env"
    by (simp add: maxAlloc_def quiet_no_failure)
  note t = createRandomFile_byte_exact [OF h, of quiet_env Map.empty "''out/file_1.bin''"]
  note q = t [THEN conjunct2, THEN conjunct2, THEN conjunct1, rule_format, OF m]
  have a: "createRandomFile quiet_env Map.empty ''out/file_1.bin'' 7 3
       = Some (Inr ([''out/file_1.bin'' \<mapsto> [0, 1, 2, 3, 4, 5, 6]], None))"
    using q [THEN conjunct1] by (simp add: quiet_bytes)
  have b: "\<exists>w. write_loop quiet_env ''out/file_1.bin'' 3 7 0 [] (NewWriterSize [] 3)
            = Some (w, [3, 3, 1], None)"
    using q [THEN conjunct2] by (simp add: spec_chunks_example)
  from h m a b show ?thesis
    by simp
qed

text \<open>
  Buffer sizes that the runtime refuses end the process before anything is written, and
  so does a machine without the memory for the buffers.
\<close>

lemma createRandomFile_buffer_out_of_range:
  "createRandomFile quiet_env Map.empty ''out/file_1.bin'' 7 (2 ^ 62)
     = Some (Inl MakeSliceLenOutOfRange)"
  "createRandomFile quiet_env Map.empty ''out/file_1.bin'' 7 (- 1)
     = Some (Inl MakeSliceLenOutOfRange)"
  "createRandomFile (quiet_env\<lparr>out_of_memory := True\<rparr>) Map.empty ''out/file_1.bin'' 7 3
     = Some (Inl OutOfMemory)"
  by (simp_all add: createRandomFile_def quiet_env_def make_bytes_def maxAlloc_def)

subsection \<open>The worker\<close>

lemma write_loop_error:
  assumes "write_loop env filePath bufferSize remaining pos chunks w = Some (w', chunks', Some e)"
  shows "(\<exists>m. e = RandomSourceError m) \<or> (\<exists>m. e = WriteError filePath m)"
proof -
  have "\<forall>w' chunks' e. y = (w', chunks', Some e) \<longrightarrow>
      (\<exists>m. e = RandomSourceError m) \<or> (\<exists>m. e = WriteError filePath m)"
    if "write_loop env filePath bufferSize remaining pos chunks w = Some y" for y
    using that
  proof (rule write_loop.raw_induct
      [where P = "\<lambda>env filePath bufferSize remaining pos chunks w y.
         \<forall>w' chunks' e. y = (w', chunks', Some e) \<longrightarrow>
           (\<exists>m. e = RandomSourceError m) \<or> (\<exists>m. e = WriteError filePath m)", rotated 1])
    fix f :: "file_env \<Rightarrow> string \<Rightarrow> int \<Rightarrow> int \<Rightarrow> nat \<Rightarrow> int list \<Rightarrow> bufio_writer
        \<Rightarrow> (bufio_writer \<times> int list \<times> file_error option) option"
      and env filePath bufferSize remaining pos chunks bufWriter y
    assume ih: "\<And>env filePath bufferSize remaining pos chunks w y.
        f env filePath bufferSize remaining pos chunks w = Some y \<Longrightarrow>
        \<forall>w' chunks' e. y = (w', chunks', Some e) \<longrightarrow>
           (\<exists>m. e = RandomSourceError m) \<or> (\<exists>m. e = WriteError filePath m)"
      and step: "(if 0 < remaining
        then let chunkSize = if remaining < bufferSize then remaining else bufferSize
             in case rand_read env pos (nat chunkSize) of
                  Inl e \<Rightarrow> Some (bufWriter, chunks, Some (RandomSourceError e))
                | Inr buffer \<Rightarrow>
                    (case bw_write env bufWriter buffer of
                       (w, None) \<Rightarrow>
                         f env filePath bufferSize (wrap64 (remaining - chunkSize))
                           (pos + nat chunkSize) (chunks @ [chunkSize]) w
                     | (w, Some e) \<Rightarrow> Some (w, chunks, Some (WriteError filePath e)))
        else Some (bufWriter, chunks, None)) = Some y"
    from step show "\<forall>w' chunks' e. y = (w', chunks', Some e) \<longrightarrow>
           (\<exists>m. e = RandomSourceError m) \<or> (\<exists>m. e = WriteError filePath m)"
      by (auto simp: Let_def split: if_splits sum.splits prod.splits option.splits dest: ih)
  qed
  with assms show ?thesis
    by blast
qed

lemma error_string_path:
  "sublist p (error_string (DirectoryCreateError p m))"
  "sublist p (error_string (FileCreateError p m))"
  "sublist p (error_string (WriteError p m))"
  "sublist p (error_string (FlushError p m))"
  unfolding error_string.simps by (rule sublist_appendI)+

lemma createRandomFile_error:
  assumes "createRandomFile env fs filePath fileSize bufferSize = Some (Inr (fs', Some e))"
  shows "is_random_source_error e \<or> sublist filePath (error_string e)"
proof (cases "mkdir_error env")
  case (Some m)
  with assms have "e = DirectoryCreateError filePath m"
    by (simp add: createRandomFile_def)
  then show ?thesis
    by (simp only: error_string_path simp_thms)
next
  case mk: None
  show ?thesis
  proof (cases "create_error env")
    case (Some m)
    with mk assms have "e = FileCreateError filePath m"
      by (simp add: createRandomFile_def)
    then show ?thesis
      by (simp only: error_string_path simp_thms)
  next
    case None
    with mk assms consider
      (loop) w chunks where
        "write_loop env filePath bufferSize fileSize 0 [] (NewWriterSize [] bufferSize)
           = Some (w, chunks, Some e)"
      | (flush) m where "e = FlushError filePath m"
      by (auto simp: createRandomFile_def split: if_splits option.splits prod.splits)
    then show ?thesis
    proof cases
      case loop
      from write_loop_error [OF this] consider
        (rand) m where "e = RandomSourceError m" | (wr) m where "e = WriteError filePath m"
        by blast
      then show ?thesis
      proof cases
        case rand
        then show ?thesis by simp
      next
        case wr
        then show ?thesis by (simp only: error_string_path simp_thms)
      qed
    next
      case flush
      then show ?thesis by (simp only: error_string_path simp_thms)
    qed
  qed
qed

lemma log_line_worker: "sublist (''Worker '' @ show_int ident) (log_line ident e)"
  unfolding log_line_def sublist_def by (rule exI [of _ "[]"]) auto

lemma log_line_path:
  assumes "sublist p (error_string e)"
  shows "sublist p (log_line ident e)"
proof -
  from assms obtain a b where "error_string e = a @ p @ b"
    by (auto simp: sublist_def)
  then have "log_line ident e = (''Worker '' @ show_int ident @ '': '' @ a) @ p @ (b @ [CHR 0x0A])"
    by (simp add: log_line_def)
  then show ?thesis
    unfolding sublist_def by blast
qed

lemma progress_values_Suc:
  "progress_values fileSize clock k (Suc n)
     = [fileSize, clock k] @ progress_values fileSize clock (Suc k) n"
  by (simp add: progress_values_def upt_conv_Cons del: upt_Suc)

lemma worker_run:
  assumes "0 < bufferSize" "bufferSize \<le> maxAlloc" "fileSize \<le> int_max"
    and "\<forall>k. \<not> out_of_memory (world k)"
  shows "\<exists>st' results.
      worker world clock ident jobs fileSize bufferSize k st = Some (Inr st')
      \<and> calls st' = calls st @ results
      \<and> map fst results = jobs
      \<and> printed st' = printed st @ log_lines ident results
      \<and> progress st' = progress st @ progress_values fileSize clock k (length jobs)
      \<and> (\<forall>(p, err) \<in> set results. \<forall>e. err = Some e \<longrightarrow>
            is_random_source_error e \<or> sublist p (error_string e))"
proof (induction jobs arbitrary: k st)
  case Nil
  show ?case
    by (simp add: log_lines_def progress_values_def)
next
  case (Cons filePath jobs)
  obtain fs err where c: "createRandomFile (world k) (files st) filePath fileSize bufferSize
      = Some (Inr (fs, err))"
    using createRandomFile_returns [OF assms(1,2,3)] assms(4) by blast
  define st1 where "st1 = st\<lparr>files := fs,
      printed := (case err of None \<Rightarrow> printed st | Some e \<Rightarrow> printed st @ [log_line ident e]),
      progress := progress st @ [fileSize, clock k],
      calls := calls st @ [(filePath, err)]\<rparr>"
  from Cons.IH [of "Suc k" st1] obtain st' results where
    ih: "worker world clock ident jobs fileSize bufferSize (Suc k) st1 = Some (Inr st')
      \<and> calls st' = calls st1 @ results
      \<and> map fst results = jobs
      \<and> printed st' = printed st1 @ log_lines ident results
      \<and> progress st' = progress st1 @ progress_values fileSize clock (Suc k) (length jobs)
      \<and> (\<forall>(p, err) \<in> set results. \<forall>e. err = Some e \<longrightarrow>
            is_random_source_error e \<or> sublist p (error_string e))"
    by (elim exE)
  then have r: "worker world clock ident jobs fileSize bufferSize (Suc k) st1 = Some (Inr st')"
    and cs: "calls st' = calls st1 @ results"
    and js: "map fst results = jobs"
    and pr: "printed st' = printed st1 @ log_lines ident results"
    and pg: "progress st' = progress st1 @ progress_values fileSize clock (Suc k) (length jobs)"
    and er: "\<forall>(p, err) \<in> set results. \<forall>e. err = Some e \<longrightarrow>
            is_random_source_error e \<or> sublist p (error_string e)"
    by simp_all
  have e0: "\<forall>e. err = Some e \<longrightarrow> is_random_source_error e \<or> sublist filePath (error_string e)"
    using c createRandomFile_error by blast
  have 1: "worker world clock ident (filePath # jobs) fileSize bufferSize k st = Some (Inr st')"
    using c r by (simp add: st1_def)
  have 2: "calls st' = calls st @ (filePath, err) # results"
    using cs by (simp add: st1_def)
  have 3: "map fst ((filePath, err) # results) = filePath # jobs"
    using js by simp
  have 4: "printed st' = printed st @ log_lines ident ((filePath, err) # results)"
    using pr by (cases err) (simp_all add: st1_def log_lines_def)
  have 5: "progress st' = progress st
      @ progress_values fileSize clock k (length (filePath # jobs))"
    using pg by (simp add: st1_def progress_values_Suc)
  have 6: "\<forall>(p, err) \<in> set ((filePath, err) # results). \<forall>e. err = Some e \<longrightarrow>
            is_random_source_error e \<or> sublist p (error_string e)"
    using er e0 by simp
  show ?case
    by (intro exI conjI) (rule 1 2 3 4 5 6)+
qed

lemma log_lines_member:
  "(p, Some e) \<in> set results \<Longrightarrow> log_line ident e \<in> set (log_lines ident results)"
  by (force simp: log_lines_def)

text \<open>
  A worker with a positive buffer size that the runtime can allocate runs through all its
  jobs whatever fails: it calls \<open>createRandomFile\<close> once for each job, in order, and never
  again for a job that failed. For each failed job it prints one line, which names the
  worker and, for a failure to create the directory or the file, to write or to flush,
  the path of the file.
\<close>

lemma worker_continues_after_errors:
  assumes "0 < bufferSize" "bufferSize \<le> maxAlloc" "fileSize \<le> int_max"
    and "\<forall>k. \<not> out_of_memory (world k)"
  shows "\<exists>st' results.
      worker world clock ident jobs fileSize bufferSize k st = Some (Inr st')
      \<and> calls st' = calls st @ results
      \<and> map fst results = jobs
      \<and> printed st' = printed st @ log_lines ident results
      \<and> (\<forall>(p, err) \<in> set results. \<forall>e. err = Some e \<longrightarrow>
            log_line ident e \<in> set (printed st')
            \<and> sublist (''Worker '' @ show_int ident) (log_line ident e)
            \<and> (is_random_source_error e \<or> sublist p (log_line ident e)))"
proof -
  from worker_run [OF assms, of clock ident jobs k st] obtain st' results where
    w: "worker world clock ident jobs fileSize bufferSize k st = Some (Inr st')"
    and c: "calls st' = calls st @ results"
    and j: "map fst results = jobs"
    and p: "printed st' = printed st @ log_lines ident results"
    and e: "\<forall>(p, err) \<in> set results. \<forall>e. err = Some e \<longrightarrow>
            is_random_source_error e \<or> sublist p (error_string e)"
    by blast
  have "\<forall>(q, err) \<in> set results. \<forall>e. err = Some e \<longrightarrow>
            log_line ident e \<in> set (printed st')
            \<and> sublist (''Worker '' @ show_int ident) (log_line ident e)
            \<and> (is_random_source_error e \<or> sublist q (log_line ident e))"
  proof (intro ballI, clarify)
    fix q e
    assume m: "(q, Some e) \<in> set results"
    then have "log_line ident e \<in> set (printed st')"
      using p by (simp add: log_lines_member)
    moreover have "is_random_source_error e \<or> sublist q (log_line ident e)"
      using e m log_line_path [of q e ident] by blast
    ultimately show "log_line ident e \<in> set (printed st')
            \<and> sublist (''Worker '' @ show_int ident) (log_line ident e)
            \<and> (is_random_source_error e \<or> sublist q (log_line ident e))"
      using log_line_worker by blast
  qed
  with w c j p show ?thesis
    by blast
qed

lemma first_fails_memory: "\<forall>k. \<not> out_of_memory (first_fails k)"
  by (simp add: first_fails_def quiet_env_def)

lemma first_fails_run:
  "map_option (map_sum id (\<lambda>st. (printed st, calls st, progress st,
        files st ''out/file_1.bin'', files st ''out/file_2.bin'')))
     (worker first_fails (\<lambda>k. 5) 3 [''out/file_1.bin'', ''out/file_2.bin''] 7 3 0 fresh_worker)
   = Some (Inr
       ([''Worker 3: error creating directory for file out/file_1.bin: permission denied''
            @ [CHR 0x0A]],
        [(''out/file_1.bin'', Some (DirectoryCreateError ''out/file_1.bin'' ''permission denied'')),
         (''out/file_2.bin'', None)],
        [7, 5, 7, 5], None, Some [0, 1, 2, 3, 4, 5, 6]))"
  by code_simp

lemma worker_continues_after_errors_example:
  "\<exists>st'. worker first_fails (\<lambda>k. 5) 3 [''out/file_1.bin'', ''out/file_2.bin''] 7 3 0 fresh_worker
          = Some (Inr st')
        \<and> calls st' =
            [(''out/file_1.bin'', Some (DirectoryCreateError ''out/file_1.bin'' ''permission denied'')),
             (''out/file_2.bin'', None)]
        \<and> files st' ''out/file_2.bin'' = Some [0, 1, 2, 3, 4, 5, 6]
        \<and> log_line 3 (DirectoryCreateError ''out/file_1.bin'' ''permission denied'')
            \<in> set (printed st')
        \<and> sublist ''out/file_1.bin''
            (log_line 3 (DirectoryCreateError ''out/file_1.bin'' ''permission denied''))"
proof -
  have h: "(0 :: int) < 3" "3 \<le> maxAlloc" "7 \<le> int_max"
    by (simp_all add: int_max_def maxAlloc_def)
  from worker_continues_after_errors [OF h first_fails_memory, of "\<lambda>k. 5" 3
      "[''out/file_1.bin'', ''out/file_2.bin'']" 0 fresh_worker]
  obtain st' results where
    w: "worker first_fails (\<lambda>k. 5) 3 [''out/file_1.bin'', ''out/file_2.bin''] 7 3 0 fresh_worker
          = Some (Inr st')"
    and c: "calls st' = calls fresh_worker @ results"
    and e: "\<forall>(p, err) \<in> set results. \<forall>e. err = Some e \<longrightarrow>
            log_line 3 e \<in> set (printed st')
            \<and> sublist (''Worker '' @ show_int 3) (log_line 3 e)
            \<and> (is_random_source_error e \<or> sublist p (log_line 3 e))"
    by blast
  from first_fails_run w have v: "calls st' =
            [(''out/file_1.bin'', Some (DirectoryCreateError ''out/file_1.bin'' ''permission denied'')),
             (''out/file_2.bin'', None)]"
    "files st' ''out/file_2.bin'' = Some [0, 1, 2, 3, 4, 5, 6]"
    by simp_all
  with c have "(''out/file_1.bin'', Some (DirectoryCreateError ''out/file_1.bin'' ''permission denied''))
      \<in> set results"
    by (auto simp: fresh_worker_def)
  with e have "log_line 3 (DirectoryCreateError ''out/file_1.bin'' ''permission denied'')
            \<in> set (printed st')
        \<and> sublist ''out/file_1.bin''
            (log_line 3 (DirectoryCreateError ''out/file_1.bin'' ''permission denied''))"
    by fastforce
  with w v show ?thesis
    by blast
qed

text \<open>
  C7. A worker is to go on after a failed job and to print a line with its identity and
  the path of the file that failed. Worker 3 with the one job \<^verbatim>\<open>out/file_1.bin\<close>, a file
  size of 7 and a buffer size of 3, on a machine whose random source fails with the
  error \<^verbatim>\<open>EIO\<close>: the worker calls \<open>createRandomFile\<close> once, which returns the error of the
  random source, sends the two progress values and ends without a crash; the one line it
  prints names the worker but not the file, because the message for this failure, unlike
  the messages for the four other failures, is built without the path.
\<close>

theorem worker_log_without_path:
  "map_option (map_sum id (\<lambda>st. (printed st, calls st, progress st)))
     (worker (\<lambda>k. no_random_env) (\<lambda>k. 5) 3 [''out/file_1.bin''] 7 3 0 fresh_worker)
   = Some (Inr ([''Worker 3: error generating random data: EIO'' @ [CHR 0x0A]],
                [(''out/file_1.bin'', Some (RandomSourceError ''EIO''))],
                [7, 5]))
   \<and> sublist ''Worker 3'' (''Worker 3: error generating random data: EIO'' @ [CHR 0x0A])
   \<and> \<not> sublist ''out/file_1.bin'' (''Worker 3: error generating random data: EIO'' @ [CHR 0x0A])"
  by code_simp

subsection \<open>The progress monitor\<close>


lemma progress_values_pairs:
  "progress_values fileSize clock k n = concat (progress_pairs fileSize clock k n)"
  by (simp add: progress_values_def progress_pairs_def)
















subsection \<open>The unit suffix\<close>

lemma HasSuffix_suffix: "HasSuffix s u \<longleftrightarrow> suffix u s"
proof
  assume "HasSuffix s u"
  then have "s = take (length s - length u) s @ u"
    by (metis HasSuffix_def append_take_drop_id)
  then show "suffix u s"
    by (metis suffixI)
next
  assume "suffix u s"
  then obtain p where "s = p @ u"
    by (auto simp: suffix_def)
  then show "HasSuffix s u"
    by (simp add: HasSuffix_def)
qed

lemma HasSuffix_last: "HasSuffix s u \<Longrightarrow> u \<noteq> [] \<Longrightarrow> last s = last u"
  by (auto simp: HasSuffix_suffix suffix_def)

lemma HasSuffix_same_length:
  assumes "HasSuffix s u" "HasSuffix s u'" "length u = length u'"
  shows "u = u'"
  using assms by (auto simp: HasSuffix_suffix suffix_def)

lemma find_unit_Some:
  "find_unit s us = Some (v, u) \<Longrightarrow>
     u \<in> set us \<and> HasSuffix s u \<and> v = TrimSpace (TrimSuffix s u)"
  by (induction us) (auto split: if_splits)

lemma find_unit_None: "find_unit s us = None \<longleftrightarrow> (\<forall>u \<in> set us. \<not> HasSuffix s u)"
  by (induction us) auto

lemma find_unit_longest:
  assumes "find_unit s units = Some (v, u)" "u' \<in> set units" "HasSuffix s u'"
  shows "length u' \<le> length u"
proof -
  have l: "last s = last u'" "last s = last u"
    using assms find_unit_Some [OF assms(1)] by (auto simp: units_def dest: HasSuffix_last)
  from assms l show ?thesis
    by (auto simp: units_def split: if_splits)
qed

lemma find_spec_unit_longest:
  assumes "find_unit s spec_units = Some (v, u)" "u' \<in> set spec_units" "HasSuffix s u'"
  shows "length u' \<le> length u"
  using assms by (auto simp: spec_units_def split: if_splits)

lemma set_spec_units: "set spec_units = set units"
  by (auto simp: spec_units_def units_def)

lemma find_unit_spec_units: "find_unit s units = find_unit s spec_units"
proof (cases "find_unit s units")
  case None
  then show ?thesis
    by (metis find_unit_None set_spec_units)
next
  case (Some r)
  obtain v u where r: "r = (v, u)" by (cases r)
  with Some have a: "find_unit s units = Some (v, u)" by simp
  note ua = find_unit_Some [OF a]
  have "find_unit s spec_units \<noteq> None"
    using ua by (auto simp: find_unit_None set_spec_units)
  then obtain v' u' where b: "find_unit s spec_units = Some (v', u')"
    by (cases "find_unit s spec_units") auto
  note ub = find_unit_Some [OF b]
  have "length u' \<le> length u"
    using find_unit_longest [OF a] ub by (simp add: set_spec_units)
  moreover have "length u \<le> length u'"
    using find_spec_unit_longest [OF b] ua by (simp add: set_spec_units)
  ultimately have "u = u'"
    using ua ub HasSuffix_same_length [of s u u'] by simp
  with ua ub a b show ?thesis
    by simp
qed

text \<open>
  C4. For every string (the normalized input of \<open>parseSize\<close> among them), the loop over the
  units in the order of the source selects the same unit and value as a search that
  checks the longer suffixes before the shorter ones, and the unit it selects is a
  longest unit that is a suffix of the string. It finds none only when no unit is a
  suffix.
\<close>

theorem find_unit_selects_longest:
  "find_unit s units = find_unit s spec_units
   \<and> (\<forall>v u. find_unit s units = Some (v, u) \<longrightarrow>
         u \<in> set units \<and> HasSuffix s u \<and> v = TrimSpace (TrimSuffix s u)
         \<and> (\<forall>u' \<in> set units. HasSuffix s u' \<longrightarrow> length u' \<le> length u))
   \<and> (find_unit s units = None \<longleftrightarrow> (\<forall>u \<in> set units. \<not> HasSuffix s u))
   \<and> parseSize sizeStr =
       (case find_unit (normalize sizeStr) spec_units of
          None \<Rightarrow> Inl InvalidFormat
        | Some (val, unit) \<Rightarrow>
            (case Atoi val of
               Inl e \<Rightarrow> Inl (InvalidNumber e)
             | Inr numValue \<Rightarrow> unit_switch numValue unit))"
proof -
  have "\<forall>v u. find_unit s units = Some (v, u) \<longrightarrow>
         u \<in> set units \<and> HasSuffix s u \<and> v = TrimSpace (TrimSuffix s u)
         \<and> (\<forall>u' \<in> set units. HasSuffix s u' \<longrightarrow> length u' \<le> length u)"
    using find_unit_Some find_unit_longest by blast
  moreover have "parseSize sizeStr =
       (case find_unit (normalize sizeStr) spec_units of
          None \<Rightarrow> Inl InvalidFormat
        | Some (val, unit) \<Rightarrow>
            (case Atoi val of
               Inl e \<Rightarrow> Inl (InvalidNumber e)
             | Inr numValue \<Rightarrow> unit_switch numValue unit))"
    by (simp only: parseSize_def find_unit_spec_units)
  ultimately show ?thesis
    using find_unit_spec_units [of s] find_unit_None [of s units] by blast
qed

lemma find_unit_example:
  "find_unit ''5 GIGABYTES'' units = Some (''5'', ''GIGABYTES'')"
  "find_unit ''5 GIGABYTES'' spec_units = Some (''5'', ''GIGABYTES'')"
  "HasSuffix ''5 GIGABYTES'' ''BYTES''" "HasSuffix ''5 GIGABYTES'' ''GIGABYTES''"
  "''BYTES'' \<in> set units"
  "find_unit ''5 GIGA'' units = None"
  by code_simp+

theorem find_unit_selects_longest_witness:
  "find_unit ''5 GIGABYTES'' units = Some (''5'', ''GIGABYTES'')
   \<and> find_unit ''5 GIGABYTES'' spec_units = Some (''5'', ''GIGABYTES'')
   \<and> ''BYTES'' \<in> set units \<and> HasSuffix ''5 GIGABYTES'' ''BYTES''
   \<and> length ''BYTES'' \<le> length ''GIGABYTES''
   \<and> find_unit ''5 GIGA'' units = None
   \<and> list_all (\<lambda>u. \<not> HasSuffix ''5 GIGA'' u) units"
proof -
  note t = find_unit_selects_longest [of "''5 GIGABYTES''" "''5 GIGABYTES''"]
  note n = find_unit_selects_longest [of "''5 GIGA''" "''5 GIGA''"]
  have "find_unit ''5 GIGABYTES'' spec_units = Some (''5'', ''GIGABYTES'')"
    using t [THEN conjunct1] find_unit_example(1) by simp
  moreover have "length ''BYTES'' \<le> length ''GIGABYTES''"
    using t [THEN conjunct2, THEN conjunct1, rule_format, OF find_unit_example(1)]
      find_unit_example(3,5)
    by blast
  moreover have "list_all (\<lambda>u. \<not> HasSuffix ''5 GIGA'' u) units"
    using n [THEN conjunct2, THEN conjunct2, THEN conjunct1] find_unit_example(6)
    by (simp add: list_all_iff)
  ultimately show ?thesis
    using find_unit_example by simp
qed

subsection \<open>Integer numerals\<close>

lemma digit_value_bounds:
  "is_digit c \<Longrightarrow> 0 \<le> (of_char c :: int) - 48 \<and> (of_char c :: int) - 48 \<le> 9"
proof -
  assume "is_digit c"
  then have "48 \<le> (of_char c :: nat) \<and> (of_char c :: nat) \<le> 57"
    by (simp add: is_digit_def)
  then have "48 \<le> int (of_char c) \<and> int (of_char c) \<le> 57"
    by linarith
  then show ?thesis
    by (simp add: of_char_def)
qed

lemma digits_foldl_mono:
  "list_all is_digit cs \<Longrightarrow> 0 \<le> a \<Longrightarrow>
     a \<le> foldl (\<lambda>a c. a * 10 + ((of_char c :: int) - 48)) a cs"
proof (induction cs arbitrary: a)
  case Nil
  then show ?case by simp
next
  case (Cons c cs)
  then have d: "0 \<le> (of_char c :: int) - 48"
    using digit_value_bounds [of c] by simp
  with Cons.prems have "a \<le> a * 10 + ((of_char c :: int) - 48)"
    by simp
  moreover have "a * 10 + ((of_char c :: int) - 48)
      \<le> foldl (\<lambda>a c. a * 10 + ((of_char c :: int) - 48)) (a * 10 + ((of_char c :: int) - 48)) cs"
    using Cons.prems d by (intro Cons.IH) simp_all
  ultimately show ?case
    by simp
qed

lemma parse_uint_loop_ok:
  "list_all is_digit ds \<Longrightarrow> 0 \<le> a \<Longrightarrow>
     foldl (\<lambda>a c. a * 10 + ((of_char c :: int) - 48)) a ds < 2 ^ 64 \<Longrightarrow>
     parse_uint_loop a ds = Inr (foldl (\<lambda>a c. a * 10 + ((of_char c :: int) - 48)) a ds)"
proof (induction ds arbitrary: a)
  case Nil
  then show ?case by simp
next
  case (Cons c cs)
  let ?a = "a * 10 + ((of_char c :: int) - 48)"
  have d: "0 \<le> (of_char c :: int) - 48"
    using Cons.prems(1) digit_value_bounds [of c] by simp
  then have nn: "0 \<le> ?a"
    using Cons.prems(2) by simp
  have "?a \<le> foldl (\<lambda>a c. a * 10 + ((of_char c :: int) - 48)) ?a cs"
    using Cons.prems(1) nn by (intro digits_foldl_mono) simp_all
  with Cons.prems(3) have small: "?a < 2 ^ 64"
    by simp
  with d have "a < 2 ^ 64 div 10 + 1"
    by simp
  with small Cons.prems(1) have "parse_uint_loop a (c # cs) = parse_uint_loop ?a cs"
    by simp
  also have "\<dots> = Inr (foldl (\<lambda>a c. a * 10 + ((of_char c :: int) - 48)) ?a cs)"
    using Cons.prems nn by (intro Cons.IH) simp_all
  finally show ?case
    by simp
qed

lemma parse_uint_loop_Inr:
  "parse_uint_loop a ds = Inr r \<Longrightarrow>
     list_all is_digit ds \<and> r = foldl (\<lambda>a c. a * 10 + ((of_char c :: int) - 48)) a ds"
  by (induction ds arbitrary: a) (auto split: if_splits)

lemma ParseUint_ok:
  "ds \<noteq> [] \<Longrightarrow> list_all is_digit ds \<Longrightarrow> digits_value ds < 2 ^ 64 \<Longrightarrow>
     ParseUint ds = Inr (digits_value ds)"
  by (simp add: ParseUint_def digits_value_def parse_uint_loop_ok)

lemma ParseUint_Inr:
  "ParseUint ds = Inr r \<Longrightarrow> ds \<noteq> [] \<and> list_all is_digit ds \<and> r = digits_value ds \<and> 0 \<le> r"
  using digits_foldl_mono [of ds 0]
  by (auto simp: ParseUint_def digits_value_def split: if_splits dest: parse_uint_loop_Inr)

lemma sign_not_digit: "\<not> is_digit CHR ''+''" "\<not> is_digit CHR ''-''"
  by (simp_all add: is_digit_def)

lemma Atoi_literal:
  assumes "int_literal s" "is_int64 (literal_value s)"
  shows "Atoi s = Inr (literal_value s)"
proof -
  from assms(1) obtain c cs where s: "s = c # cs"
    by (cases s) (simp_all add: int_literal_def)
  consider (minus) "c = CHR ''-''" | (plus) "c = CHR ''+''" | (digit) "c \<noteq> CHR ''-''" "c \<noteq> CHR ''+''"
    by blast
  then show ?thesis
  proof cases
    case minus
    with assms s have d: "cs \<noteq> []" "list_all is_digit cs" and r: "digits_value cs \<le> 2 ^ 63"
      by (simp_all add: int_literal_def literal_value_def is_int64_def int_min_def)
    then have "ParseUint cs = Inr (digits_value cs)"
      by (intro ParseUint_ok) simp_all
    with minus s r show ?thesis
      by (simp add: Atoi_def literal_value_def)
  next
    case plus
    with assms s have d: "cs \<noteq> []" "list_all is_digit cs" and r: "digits_value cs < 2 ^ 63"
      by (simp_all add: int_literal_def literal_value_def is_int64_def int_max_def)
    then have "ParseUint cs = Inr (digits_value cs)"
      by (intro ParseUint_ok) simp_all
    with plus s r show ?thesis
      by (simp add: Atoi_def literal_value_def)
  next
    case digit
    with assms s have d: "list_all is_digit s" and r: "digits_value s < 2 ^ 63"
      by (simp_all add: int_literal_def literal_value_def is_int64_def int_max_def)
    with s have "ParseUint s = Inr (digits_value s)"
      by (intro ParseUint_ok) simp_all
    with digit s r show ?thesis
      by (simp add: Atoi_def literal_value_def)
  qed
qed

lemma Atoi_Inr:
  assumes "Atoi s = Inr n"
  shows "int_literal s \<and> is_int64 (literal_value s) \<and> n = literal_value s"
proof -
  from assms obtain c cs where s: "s = c # cs"
    by (cases s) (simp_all add: Atoi_def)
  let ?ds = "if c = CHR ''+'' \<or> c = CHR ''-'' then cs else s"
  from assms s obtain un where u: "ParseUint ?ds = Inr un"
    by (cases "ParseUint ?ds") (auto simp: Atoi_def Let_def split: if_splits)
  note p = ParseUint_Inr [OF u]
  from assms s u have r: "\<not> (c \<noteq> CHR ''-'' \<and> un \<ge> 2 ^ 63)" "\<not> (c = CHR ''-'' \<and> un > 2 ^ 63)"
    and n: "n = (if c = CHR ''-'' then - un else un)"
    by (auto simp: Atoi_def Let_def split: if_splits)
  have "int_literal s"
    using s p by (auto simp: int_literal_def)
  moreover have "literal_value s = n"
    using s p n by (auto simp: literal_value_def)
  moreover have "is_int64 n"
    using r n p by (auto simp: is_int64_def int_min_def int_max_def)
  ultimately show ?thesis
    by simp
qed

lemma Atoi_fails:
  "\<not> (int_literal s \<and> is_int64 (literal_value s)) \<Longrightarrow> \<exists>e. Atoi s = Inl e"
  using Atoi_Inr [of s] by (cases "Atoi s") auto

subsection \<open>Normalization\<close>

lemma char_classes:
  "is_digit c \<Longrightarrow> \<not> is_space c \<and> \<not> is_quote c \<and> \<not> is_lower c \<and> \<not> is_upper c"
  "is_space c \<Longrightarrow> \<not> is_quote c \<and> \<not> is_lower c \<and> \<not> is_upper c"
  "is_upper c \<Longrightarrow> \<not> is_space c \<and> \<not> is_quote c \<and> \<not> is_lower c"
  "is_lower c \<Longrightarrow> \<not> is_space c \<and> \<not> is_quote c"
  by (auto simp: is_digit_def is_space_def is_quote_def is_lower_def is_upper_def)

lemma sign_classes:
  "c = CHR ''+'' \<or> c = CHR ''-'' \<Longrightarrow>
     \<not> is_space c \<and> \<not> is_quote c \<and> \<not> is_lower c \<and> \<not> is_upper c"
  by (auto simp: is_space_def is_quote_def is_lower_def is_upper_def)

lemma int_literal_chars:
  assumes "int_literal num"
  shows "num \<noteq> []" and "\<forall>c \<in> set num. is_digit c \<or> c = CHR ''+'' \<or> c = CHR ''-''"
    and "is_digit (last num)"
proof -
  from assms obtain c cs where s: "num = c # cs"
    by (cases num) (simp_all add: int_literal_def)
  then show "num \<noteq> []" by simp
  from assms s show "\<forall>c \<in> set num. is_digit c \<or> c = CHR ''+'' \<or> c = CHR ''-''"
    by (auto simp: int_literal_def list_all_iff split: if_splits)
  from assms s show "is_digit (last num)"
    by (auto simp: int_literal_def list_all_iff split: if_splits)
qed

lemma trim_where_strip:
  assumes "list_all P a" "list_all P b" "m \<noteq> []" "\<not> P (hd m)" "\<not> P (last m)"
  shows "trim_where P (a @ m @ b) = m"
proof -
  have "dropWhile P (a @ m @ b) = dropWhile P (m @ b)"
    using assms(1) by (simp add: dropWhile_append2 list_all_iff)
  also have "\<dots> = m @ b"
    using assms(3,4) by (cases m) simp_all
  finally have "rev (dropWhile P (a @ m @ b)) = rev b @ rev m"
    by simp
  moreover have "dropWhile P (rev b @ rev m) = dropWhile P (rev m)"
    using assms(2) dropWhile_append2 [of "rev b" P "rev m"] by (simp add: list_all_iff)
  moreover have "dropWhile P (rev m) = rev m"
    using assms(3,5) by (cases "rev m") (simp_all add: last_rev [symmetric] hd_rev)
  ultimately show ?thesis
    by (simp add: trim_where_def)
qed

lemma ToUpper_same: "\<forall>c \<in> set s. \<not> is_lower c \<Longrightarrow> ToUpper s = s"
  by (simp add: ToUpper_def to_upper_char_def map_idI)

lemma units_upper: "u \<in> set units \<Longrightarrow> u \<noteq> [] \<and> (\<forall>c \<in> set u. is_upper c)"
  by (auto simp: units_def is_upper_def)

lemma ToUpper_unit_letters:
  assumes "ToUpper uv \<in> set units"
  shows "uv \<noteq> []" and "\<forall>c \<in> set uv. is_lower c \<or> is_upper c"
proof -
  note u = units_upper [OF assms]
  from u show "uv \<noteq> []"
    by (auto simp: ToUpper_def)
  show "\<forall>c \<in> set uv. is_lower c \<or> is_upper c"
  proof
    fix c assume "c \<in> set uv"
    then have "to_upper_char c \<in> set (ToUpper uv)"
      by (simp add: ToUpper_def)
    with u have "is_upper (to_upper_char c)" by blast
    then show "is_lower c \<or> is_upper c"
      by (cases "is_lower c") (simp_all add: to_upper_char_def)
  qed
qed

lemma normalize_valid:
  assumes "list_all is_quote ql" "list_all is_quote qr"
    and "list_all is_space wl" "list_all is_space ws" "list_all is_space wr"
    and "int_literal num" "ToUpper uv \<in> set units"
  shows "normalize (ql @ wl @ num @ ws @ uv @ wr @ qr) = (num @ ws) @ ToUpper uv"
proof -
  note n = int_literal_chars [OF assms(6)]
  note l = ToUpper_unit_letters [OF assms(7)]
  have hd_num: "\<not> is_space (hd num) \<and> \<not> is_quote (hd num)"
    using n(1,2) char_classes(1) [of "hd num"] sign_classes [of "hd num"]
    by (metis list.set_sel(1))
  have last_uv: "\<not> is_space (last uv) \<and> \<not> is_quote (last uv)"
    using l char_classes(3,4) [of "last uv"] by (metis last_in_set)
  let ?y = "num @ ws @ uv"
  let ?x = "wl @ ?y @ wr"
  have y: "?y \<noteq> []" "hd ?y = hd num" "last ?y = last uv"
    using n(1) l(1) by simp_all
  have x: "?x \<noteq> []" "\<not> is_quote (hd ?x)" "\<not> is_quote (last ?x)"
  proof -
    show "?x \<noteq> []" using n(1) by simp
    show "\<not> is_quote (hd ?x)"
    proof (cases wl)
      case Nil
      with hd_num n(1) show ?thesis by simp
    next
      case (Cons a as)
      with assms(3) char_classes(2) [of a] show ?thesis by simp
    qed
    show "\<not> is_quote (last ?x)"
    proof (cases "wr = []")
      case True
      with last_uv l(1) show ?thesis by simp
    next
      case False
      then have "last wr \<in> set wr" by simp
      with assms(5) have "is_space (last wr)" by (simp add: list_all_iff)
      with False char_classes(2) [of "last wr"] show ?thesis by simp
    qed
  qed
  have "trim_quotes (ql @ ?x @ qr) = ?x"
    unfolding trim_quotes_def using assms(1,2) x by (rule trim_where_strip)
  moreover have "TrimSpace ?x = ?y"
    unfolding TrimSpace_def using assms(3,5) y(1) hd_num last_uv
    by (intro trim_where_strip) (simp_all only: y)
  moreover have "ToUpper ?y = ToUpper num @ ToUpper ws @ ToUpper uv"
    by (simp add: ToUpper_def)
  moreover have "ToUpper num = num"
    using n(2) char_classes(1) sign_classes by (intro ToUpper_same) blast
  moreover have "ToUpper ws = ws"
    using assms(4) char_classes(2) by (intro ToUpper_same) (auto simp: list_all_iff)
  ultimately show ?thesis
    by (simp add: normalize_def)
qed

lemma find_unit_appended:
  assumes "u \<in> set units" "p \<noteq> []" "\<not> is_upper (last p)"
  shows "find_unit (p @ u) units = Some (TrimSpace p, u)"
proof -
  have su: "HasSuffix (p @ u) u"
    by (simp add: HasSuffix_suffix suffix_def)
  with assms(1) have "find_unit (p @ u) units \<noteq> None"
    by (auto simp: find_unit_None)
  then obtain v u' where f: "find_unit (p @ u) units = Some (v, u')"
    by (cases "find_unit (p @ u) units") auto
  note r = find_unit_Some [OF f]
  have ge: "length u \<le> length u'"
    using find_unit_longest [OF f assms(1) su] .
  from r have "suffix u' (p @ u)"
    by (simp add: HasSuffix_suffix)
  then consider (inner) "suffix u' u" | (outer) x where "u' = x @ u" "suffix x p"
    by (auto simp: suffix_append)
  then have "u' = u"
  proof cases
    case inner
    then have "length u' \<le> length u"
      by (rule suffix_length_le)
    with ge inner show ?thesis
      by (auto simp: suffix_def)
  next
    case outer
    show ?thesis
    proof (cases "x = []")
      case True
      with outer show ?thesis by simp
    next
      case False
      with outer(2) have "last x = last p"
        by (auto simp: suffix_def)
      moreover have "last x \<in> set u'"
        using False outer(1) by simp
      ultimately have "is_upper (last p)"
        using units_upper r by metis
      with assms(3) show ?thesis by simp
    qed
  qed
  moreover have "TrimSuffix (p @ u) u = p"
    using su by (simp add: TrimSuffix_def)
  ultimately show ?thesis
    using f r by simp
qed

lemma wrap64_mult_left: "wrap64 (wrap64 a * b) = wrap64 (a * b)"
proof -
  have "wrap64 a mod 2 ^ 64 = a mod 2 ^ 64"
  proof -
    have "wrap64 a mod 2 ^ 64 = ((a + 2 ^ 63) mod 2 ^ 64 - 2 ^ 63) mod 2 ^ 64"
      by (simp add: wrap64_def)
    also have "\<dots> = ((a + 2 ^ 63) - 2 ^ 63) mod 2 ^ 64"
      by (rule mod_diff_left_eq)
    finally show ?thesis by simp
  qed
  then have "(wrap64 a * b) mod 2 ^ 64 = (a * b) mod 2 ^ 64"
    by (metis mod_mult_left_eq)
  then have "(wrap64 a * b + 2 ^ 63) mod 2 ^ 64 = (a * b + 2 ^ 63) mod 2 ^ 64"
    by (metis mod_add_left_eq)
  then show ?thesis
    by (simp add: wrap64_def)
qed

lemma unit_switch_multiplier:
  assumes "u \<in> set units" "is_int64 n"
  shows "unit_switch n u = Inr (wrap64 (n * multiplier u))"
proof -
  have k: "wrap64 (wrap64 (n * 1024) * 1024) = wrap64 (n * 1048576)"
  proof -
    have "wrap64 (wrap64 (n * 1024) * 1024) = wrap64 (n * 1024 * 1024)"
      by (rule wrap64_mult_left)
    also have "n * 1024 * 1024 = n * 1048576"
      by simp
    finally show ?thesis .
  qed
  have m: "wrap64 (wrap64 (n * 1048576) * 1024) = wrap64 (n * 1073741824)"
  proof -
    have "wrap64 (wrap64 (n * 1048576) * 1024) = wrap64 (n * 1048576 * 1024)"
      by (rule wrap64_mult_left)
    also have "n * 1048576 * 1024 = n * 1073741824"
      by simp
    finally show ?thesis .
  qed
  from assms(1) have "u = ''GB'' \<or> u = ''MB'' \<or> u = ''KB'' \<or> u = ''B'' \<or> u = ''GIGABYTE''
      \<or> u = ''MEGABYTE'' \<or> u = ''KILOBYTE'' \<or> u = ''BYTE'' \<or> u = ''GIGABYTES''
      \<or> u = ''MEGABYTES'' \<or> u = ''KILOBYTES'' \<or> u = ''BYTES''"
    by (simp add: units_def)
  then show ?thesis
    by (elim disjE) (simp_all add: unit_switch_def multiplier_def k m wrap64_id assms(2))
qed

subsection \<open>parseSize\<close>

lemma find_unit_of_longest:
  assumes "u \<in> set units" "HasSuffix s u"
    and "\<forall>u' \<in> set units. HasSuffix s u' \<longrightarrow> length u' \<le> length u"
  shows "find_unit s units = Some (TrimSpace (TrimSuffix s u), u)"
proof -
  from assms(1,2) have "find_unit s units \<noteq> None"
    by (auto simp: find_unit_None)
  then obtain v u' where f: "find_unit s units = Some (v, u')"
    by (cases "find_unit s units") auto
  note r = find_unit_Some [OF f]
  have "length u \<le> length u'"
    using find_unit_longest [OF f assms(1,2)] .
  moreover have "length u' \<le> length u"
    using assms(3) r by blast
  ultimately have "u' = u"
    using r assms(2) HasSuffix_same_length [of s u' u] by simp
  with f r show ?thesis
    by simp
qed

lemma parseSize_valid_string:
  assumes "list_all is_quote ql" "list_all is_quote qr"
    and "list_all is_space wl" "list_all is_space ws" "list_all is_space wr"
    and "int_literal num" "is_int64 (literal_value num)" "ToUpper uv \<in> set units"
  shows "parseSize (ql @ wl @ num @ ws @ uv @ wr @ qr)
           = Inr (wrap64 (literal_value num * multiplier (ToUpper uv)))"
proof -
  note n = int_literal_chars [OF assms(6)]
  have edge: "\<not> is_space (hd num)" "\<not> is_space (last num)" "\<not> is_upper (last num)"
    using n char_classes(1) [of "hd num"] sign_classes [of "hd num"] char_classes(1) [of "last num"]
    by (metis list.set_sel(1))+
  have p: "num @ ws \<noteq> []" "\<not> is_upper (last (num @ ws))"
  proof -
    show "num @ ws \<noteq> []" using n(1) by simp
    show "\<not> is_upper (last (num @ ws))"
    proof (cases "ws = []")
      case True
      with edge(3) show ?thesis by simp
    next
      case False
      then have "last ws \<in> set ws" by simp
      with assms(4) have "is_space (last ws)" by (simp add: list_all_iff)
      with False char_classes(2) [of "last ws"] show ?thesis by simp
    qed
  qed
  have "TrimSpace (num @ ws) = num"
    unfolding TrimSpace_def
    using trim_where_strip [of is_space "[]" ws num] assms(4) n(1) edge(1,2) by simp
  with find_unit_appended [OF assms(8) p]
  have "find_unit (normalize (ql @ wl @ num @ ws @ uv @ wr @ qr)) units = Some (num, ToUpper uv)"
    by (simp only: normalize_valid [OF assms(1-6,8)])
  then show ?thesis
    by (simp add: parseSize_def Atoi_literal [OF assms(6,7)]
        unit_switch_multiplier [OF assms(8,7)])
qed

text \<open>
  C2, as \<open>parseSize\<close> has it. A size string is valid when it consists of quote characters,
  white space, an integer numeral (an optional sign and decimal digits), white space, a
  unit in any letter case, white space and quote characters, in this order, each part but
  the numeral and the unit possibly empty. For a valid string whose numeral is a 64-bit
  integer, \<open>parseSize\<close> returns the product of the integer and the multiplier of the unit
  in 64-bit wrap-around arithmetic, which is the product itself when that is a 64-bit
  integer. For an ASCII string whose normalized form ends in no unit it fails with
  \<open>InvalidFormat\<close>; for one whose text before the longest unit suffix is not the numeral
  of a 64-bit integer it fails with \<open>InvalidNumber\<close>.
\<close>

theorem parseSize_valid:
  assumes "list_all is_quote ql" "list_all is_quote qr"
    and "list_all is_space wl" "list_all is_space ws" "list_all is_space wr"
    and "int_literal num" "is_int64 (literal_value num)" "ToUpper uv \<in> set units"
  shows "parseSize (ql @ wl @ num @ ws @ uv @ wr @ qr)
           = Inr (wrap64 (literal_value num * multiplier (ToUpper uv)))
    \<and> (is_int64 (literal_value num * multiplier (ToUpper uv)) \<longrightarrow>
         parseSize (ql @ wl @ num @ ws @ uv @ wr @ qr)
           = Inr (literal_value num * multiplier (ToUpper uv)))
    \<and> (\<forall>s. ascii s \<and> (\<forall>u \<in> set units. \<not> HasSuffix (normalize s) u) \<longrightarrow>
          parseSize s = Inl InvalidFormat)
    \<and> (\<forall>s u. ascii s \<and> u \<in> set units \<and> HasSuffix (normalize s) u
          \<and> (\<forall>u' \<in> set units. HasSuffix (normalize s) u' \<longrightarrow> length u' \<le> length u)
          \<and> \<not> (int_literal (TrimSpace (TrimSuffix (normalize s) u))
               \<and> is_int64 (literal_value (TrimSpace (TrimSuffix (normalize s) u)))) \<longrightarrow>
          (\<exists>e. parseSize s = Inl (InvalidNumber e)))"
proof -
  have a: "parseSize (ql @ wl @ num @ ws @ uv @ wr @ qr)
           = Inr (wrap64 (literal_value num * multiplier (ToUpper uv)))"
    using assms by (rule parseSize_valid_string)
  then have b: "is_int64 (literal_value num * multiplier (ToUpper uv)) \<longrightarrow>
         parseSize (ql @ wl @ num @ ws @ uv @ wr @ qr)
           = Inr (literal_value num * multiplier (ToUpper uv))"
    by (simp add: wrap64_id)
  have c: "\<forall>s. ascii s \<and> (\<forall>u \<in> set units. \<not> HasSuffix (normalize s) u) \<longrightarrow>
          parseSize s = Inl InvalidFormat"
  proof (intro allI impI)
    fix s
    assume "ascii s \<and> (\<forall>u \<in> set units. \<not> HasSuffix (normalize s) u)"
    then have "find_unit (normalize s) units = None"
      by (simp add: find_unit_None)
    then show "parseSize s = Inl InvalidFormat"
      by (simp add: parseSize_def)
  qed
  have d: "\<forall>s u. ascii s \<and> u \<in> set units \<and> HasSuffix (normalize s) u
          \<and> (\<forall>u' \<in> set units. HasSuffix (normalize s) u' \<longrightarrow> length u' \<le> length u)
          \<and> \<not> (int_literal (TrimSpace (TrimSuffix (normalize s) u))
               \<and> is_int64 (literal_value (TrimSpace (TrimSuffix (normalize s) u)))) \<longrightarrow>
          (\<exists>e. parseSize s = Inl (InvalidNumber e))"
  proof (intro allI impI)
    fix s u
    let ?v = "TrimSpace (TrimSuffix (normalize s) u)"
    assume h: "ascii s \<and> u \<in> set units \<and> HasSuffix (normalize s) u
          \<and> (\<forall>u' \<in> set units. HasSuffix (normalize s) u' \<longrightarrow> length u' \<le> length u)
          \<and> \<not> (int_literal ?v \<and> is_int64 (literal_value ?v))"
    then have "find_unit (normalize s) units = Some (?v, u)"
      by (intro find_unit_of_longest) simp_all
    moreover from h obtain e where "Atoi ?v = Inl e"
      using Atoi_fails [of ?v] by blast
    ultimately show "\<exists>e. parseSize s = Inl (InvalidNumber e)"
      by (simp add: parseSize_def)
  qed
  from a b c d show ?thesis
    by blast
qed

lemma parseSize_examples:
  "list_all is_quote [CHR 0x27]" "list_all is_quote [CHR 0x22]"
  "list_all is_space '' ''" "list_all is_space []"
  "int_literal ''-5''" "is_int64 (literal_value ''-5'')" "ToUpper ''mb'' \<in> set units"
  "literal_value ''-5'' * multiplier (ToUpper ''mb'') = - 5242880"
  "is_int64 (- 5242880)"
  "ascii ''5''" "list_all (\<lambda>u. \<not> HasSuffix (normalize ''5'') u) units"
  "ascii ''x5GB''" "''GB'' \<in> set units" "HasSuffix (normalize ''x5GB'') ''GB''"
  "list_all (\<lambda>u'. HasSuffix (normalize ''x5GB'') u' \<longrightarrow> length u' \<le> length ''GB'') units"
  "\<not> int_literal (TrimSpace (TrimSuffix (normalize ''x5GB'') ''GB''))"
  by code_simp+

theorem parseSize_valid_witness:
  "list_all is_quote [CHR 0x27] \<and> list_all is_quote [CHR 0x22] \<and> list_all is_space '' ''
   \<and> int_literal ''-5'' \<and> is_int64 (literal_value ''-5'') \<and> ToUpper ''mb'' \<in> set units
   \<and> is_int64 (literal_value ''-5'' * multiplier (ToUpper ''mb''))
   \<and> parseSize ([CHR 0x27] @ '' '' @ ''-5'' @ '' '' @ ''mb'' @ [] @ [CHR 0x22]) = Inr (- 5242880)
   \<and> ascii ''5'' \<and> list_all (\<lambda>u. \<not> HasSuffix (normalize ''5'') u) units
   \<and> parseSize ''5'' = Inl InvalidFormat
   \<and> ascii ''x5GB'' \<and> ''GB'' \<in> set units \<and> HasSuffix (normalize ''x5GB'') ''GB''
   \<and> \<not> int_literal (TrimSpace (TrimSuffix (normalize ''x5GB'') ''GB''))
   \<and> (\<exists>e. parseSize ''x5GB'' = Inl (InvalidNumber e))"
proof -
  note e = parseSize_examples
  note t = parseSize_valid [OF e(1,2,3,3,4,5,6,7)]
  have i: "is_int64 (literal_value ''-5'' * multiplier (ToUpper ''mb''))"
    by (simp only: e(8,9))
  have a: "parseSize ([CHR 0x27] @ '' '' @ ''-5'' @ '' '' @ ''mb'' @ [] @ [CHR 0x22])
      = Inr (- 5242880)"
    using t [THEN conjunct2, THEN conjunct1, rule_format, OF i] by (simp only: e(8))
  have b: "parseSize ''5'' = Inl InvalidFormat"
    using t [THEN conjunct2, THEN conjunct2, THEN conjunct1, rule_format, of "''5''"] e(10,11)
    by (simp add: list_all_iff)
  have c: "\<exists>e. parseSize ''x5GB'' = Inl (InvalidNumber e)"
    using t [THEN conjunct2, THEN conjunct2, THEN conjunct2, rule_format, of "''x5GB''" "''GB''"]
      e(12-16)
    by (simp add: list_all_iff)
  from e i a b c show ?thesis
    by (intro conjI) assumption+
qed

text \<open>
  Where the product leaves the 64-bit integers the result is not the product:
  17179869185 GB, which is \<open>(2^34 + 1) * 2^30\<close> bytes, is parsed as \<open>2^30\<close> bytes.
\<close>

theorem parseSize_overflow_counterexample:
  "int_literal ''17179869185'' \<and> literal_value ''17179869185'' = 17179869185
   \<and> ToUpper ''GB'' \<in> set units \<and> multiplier (ToUpper ''GB'') = 1073741824
   \<and> parseSize ''17179869185GB'' = Inr 1073741824
   \<and> (17179869185 :: int) * 1073741824 \<noteq> 1073741824"
  by code_simp

lemma parseSize_space_outside_quotes:
  "parseSize ('' '' @ [CHR 0x27] @ ''1GB'' @ [CHR 0x27] @ '' '') = Inl InvalidFormat"
  by code_simp

lemma parseSize_out_of_range:
  "int_literal ''99999999999999999999''"
  "parseSize ''99999999999999999999B'' = Inl (InvalidNumber ErrRange)"
  by code_simp+

end
